theory Spec2Isabelle
  imports Complex_Main "HOL-Library.Sublist" "HOL-Library.Log_Nat"
begin

section \<open>The PDF viewer of frontend/app/components/PdfViewer.tsx\<close>

text \<open>
  The component keeps six state cells (\<open>useState\<close>), receives the file, the elements and
  the current page from its host (frontend/app/page.tsx, whose \<open>onPageChange\<close> is its
  own \<open>setCurrentPage\<close>), and renders one overlay per element of the current page.

  The numbers that the component computes with (box coordinates, the measured width,
  the byte counts of a progress report and the percentage) are IEEE 754 binary64
  values, modelled in the next subsection with their rounding, their infinities and
  \<open>NaN\<close>. Page indices and the page count, which the component only compares and
  moves by one, are integers (\<open>int\<close>). A value that JavaScript leaves \<open>undefined\<close>
  or \<open>null\<close> is \<open>None\<close>.
\<close>

subsection \<open>JavaScript numbers\<close>

text \<open>
  A finite double is the rational it denotes; the two zeros are not told apart. Every
  operation rounds its exact result to the nearest double, a tie to the one with an
  even significand (\<open>fl\<close>).
\<close>

datatype number = Fin rat | PInf | NInf | NaN

text \<open>\<open>ilog2 x\<close> is the integer \<open>e\<close> with \<open>2^e \<le> x < 2^(e+1)\<close>, for a positive \<open>x\<close>.\<close>

definition ilog2 :: "rat \<Rightarrow> int" where
  "ilog2 x = (if 1 \<le> x then bitlen \<lfloor>x\<rfloor> - 1 else - bitlen (\<lceil>1 / x\<rceil> - 1))"

text \<open>The nearest integer, a tie to the even one.\<close>

definition rne :: "rat \<Rightarrow> int" where
  "rne y =
    (let f = \<lfloor>y\<rfloor>; d = y - of_int f
     in if d < 1 / 2 then f else if 1 / 2 < d then f + 1 else if even f then f else f + 1)"

text \<open>
  Rounding to binary64: 53 significant bits, so the doubles of the binade of exponent
  \<open>e\<close> are the multiples of \<open>2^(e-52)\<close>; below \<open>2^(-1022)\<close> the spacing stays
  \<open>2^(-1074)\<close> (subnormals); a rounded magnitude of \<open>2^1024\<close> or more is an infinity.
\<close>

definition fl :: "rat \<Rightarrow> number" where
  "fl x =
    (if x = 0 then Fin 0
     else
       let e = max (ilog2 \<bar>x\<bar>) (- 1022);
           q = 2 powi (e - 52);
           r = of_int (rne (x / q)) * q
       in if 2 ^ 1024 \<le> \<bar>r\<bar> then (if 0 < x then PInf else NInf) else Fin r)"

definition sign :: "number \<Rightarrow> int" where
  "sign x =
    (case x of
       Fin a \<Rightarrow> if a < 0 then - 1 else if a = 0 then 0 else 1
     | PInf \<Rightarrow> 1
     | NInf \<Rightarrow> - 1
     | NaN \<Rightarrow> 0)"

text \<open>\<open>x * y\<close>: with an infinite factor the product is \<open>NaN\<close> when the other is zero.\<close>

fun fmul :: "number \<Rightarrow> number \<Rightarrow> number" where
  "fmul (Fin a) (Fin b) = fl (a * b)"
| "fmul NaN y = NaN"
| "fmul x NaN = NaN"
| "fmul x y =
    (if sign x * sign y = 0 then NaN else if 0 < sign x * sign y then PInf else NInf)"

text \<open>
  \<open>x / y\<close>. A zero divisor is taken for the positive zero; the component divides by
  the constant 1000 and by a \<open>total\<close> that passed the truthiness test, never by zero.
\<close>

fun fdiv :: "number \<Rightarrow> number \<Rightarrow> number" where
  "fdiv (Fin a) (Fin b) =
    (if b = 0 then (if a = 0 then NaN else if 0 < a then PInf else NInf) else fl (a / b))"
| "fdiv NaN y = NaN"
| "fdiv x NaN = NaN"
| "fdiv (Fin a) y = Fin 0"
| "fdiv x (Fin b) = (if (0 \<le> b) = (x = PInf) then PInf else NInf)"
| "fdiv x y = NaN"

text \<open>\<open>x - y\<close>.\<close>

fun fsub :: "number \<Rightarrow> number \<Rightarrow> number" where
  "fsub (Fin a) (Fin b) = fl (a - b)"
| "fsub NaN y = NaN"
| "fsub x NaN = NaN"
| "fsub (Fin a) PInf = NInf"
| "fsub (Fin a) NInf = PInf"
| "fsub PInf PInf = NaN"
| "fsub NInf NInf = NaN"
| "fsub PInf y = PInf"
| "fsub NInf y = NInf"

text \<open>\<open>x < y\<close>, false when either is \<open>NaN\<close>.\<close>

fun js_lt :: "number \<Rightarrow> number \<Rightarrow> bool" where
  "js_lt NaN y = False"
| "js_lt x NaN = False"
| "js_lt (Fin a) (Fin b) = (a < b)"
| "js_lt x PInf = (x \<noteq> PInf)"
| "js_lt NInf y = (y \<noteq> NInf)"
| "js_lt x y = False"

text \<open>
  \<open>Math.round\<close>: the nearest integer, a half towards plus infinity; exact, since a
  double of magnitude \<open>2^52\<close> or more is an integer already.
\<close>

fun Math_round :: "number \<Rightarrow> number" where
  "Math_round (Fin x) = Fin (of_int \<lfloor>x + 1 / 2\<rfloor>)"
| "Math_round x = x"

text \<open>\<open>Math.min\<close>: \<open>NaN\<close> when either argument is.\<close>

definition Math_min :: "number \<Rightarrow> number \<Rightarrow> number" where
  "Math_min x y = (if x = NaN \<or> y = NaN then NaN else if js_lt y x then y else x)"

text \<open>A number is truthy unless it is zero or \<open>NaN\<close>.\<close>

fun truthy_number :: "number \<Rightarrow> bool" where
  "truthy_number (Fin a) = (a \<noteq> 0)"
| "truthy_number NaN = False"
| "truthy_number x = True"

text \<open>In arithmetic \<open>undefined\<close> converts to \<open>NaN\<close>.\<close>

definition to_number :: "number option \<Rightarrow> number" where
  "to_number x = (case x of None \<Rightarrow> NaN | Some n \<Rightarrow> n)"

subsection \<open>Data\<close>

record Element =
  type :: string
  bbox :: "number list"
  page :: int

text \<open>
  What a property read on the object literal \<open>COLOR_MAP\<close> can give: one of its own
  string values, a member inherited from \<open>Object.prototype\<close> (a function or an object,
  named here by the key that reached it), or \<open>undefined\<close>.
\<close>

datatype js_value = JsString string | JsInherited string | JsUndefined

text \<open>
  The box a \<open>div\<close> is given at lines 150-162: React key, the class interpolated at the
  end of \<open>className\<close>, the four style lengths and the tooltip.
\<close>

record Overlay =
  key :: nat
  border :: js_value
  style_left :: "number option"
  style_top :: "number option"
  style_width :: number
  style_height :: number
  title :: string

text \<open>
  Props (\<open>file_prop\<close>, \<open>elements\<close>, \<open>currentPage\<close>), the state cells of lines 36-41,
  and the URL captured by the cleanup closure that the effect of lines 44-54 returned last
  (\<open>cleanup\<close>). A \<open>File\<close> and an object URL are known by an identity only.
\<close>

record PdfViewer =
  file_prop :: "nat option"
  elements :: "Element list"
  currentPage :: int
  numPages :: "int option"
  pageWidth :: number
  loadProgress :: "number option"
  error :: "string option"
  fileUrl :: "nat option"
  renderText :: bool
  cleanup :: "nat option"

text \<open>The argument of \<open>onLoadProgress\<close>: both fields are optional (line 80).\<close>

record Progress =
  loaded :: "number option"
  total :: "number option"

subsection \<open>Projection of a bounding box (lines 142-148)\<close>

text \<open>\<open>el.bbox.map(c => (c * pageWidth) / 1000)\<close>.\<close>

definition project :: "number \<Rightarrow> number list \<Rightarrow> number list" where
  "project w b = map (\<lambda>c. fdiv (fmul c w) (Fin 1000)) b"

text \<open>
  Array destructuring reads positions 0 to 3; a position past the end is
  \<open>undefined\<close>, and a difference with \<open>undefined\<close> is \<open>NaN\<close>.
\<close>

definition js_at :: "'a list \<Rightarrow> nat \<Rightarrow> 'a option" where
  "js_at xs i = (if i < length xs then Some (xs ! i) else None)"

definition js_sub :: "number option \<Rightarrow> number option \<Rightarrow> number" where
  "js_sub a b = fsub (to_number a) (to_number b)"

subsection \<open>The colour table and its fallback (lines 14-20, 152)\<close>

definition COLOR_MAP :: "(string \<times> string) list" where
  "COLOR_MAP =
    [(''title'', ''border-red-500''),
     (''header'', ''border-blue-500''),
     (''paragraph'', ''border-green-500''),
     (''table'', ''border-purple-500''),
     (''figure'', ''border-yellow-500'')]"

text \<open>
  \<open>COLOR_MAP\<close> is a plain object literal, so a read \<open>COLOR_MAP[k]\<close> that finds no own
  property continues along the prototype chain. These are the members of
  \<open>Object.prototype\<close> that every plain object inherits.
\<close>

definition object_prototype_keys :: "string list" where
  "object_prototype_keys =
    [''constructor'', ''hasOwnProperty'', ''isPrototypeOf'', ''propertyIsEnumerable'',
     ''toLocaleString'', ''toString'', ''valueOf'', ''__proto__'',
     ''__defineGetter__'', ''__defineSetter__'', ''__lookupGetter__'', ''__lookupSetter__'']"

definition COLOR_MAP_get :: "string \<Rightarrow> js_value" where
  "COLOR_MAP_get k =
    (case map_of COLOR_MAP k of
       Some v \<Rightarrow> JsString v
     | None \<Rightarrow> if k \<in> set object_prototype_keys then JsInherited k else JsUndefined)"

fun truthy :: "js_value \<Rightarrow> bool" where
  "truthy (JsString s) = (s \<noteq> [])"
| "truthy (JsInherited k) = True"
| "truthy JsUndefined = False"

text \<open>\<open>COLOR_MAP[el.type] || 'border-gray-500'\<close>.\<close>

definition border_class :: "string \<Rightarrow> js_value" where
  "border_class t =
    (let v = COLOR_MAP_get t in if truthy v then v else JsString ''border-gray-500'')"

subsection \<open>Overlays of the current page (lines 97, 142-164)\<close>

text \<open>
  \<open>elements.filter(e => e.page === currentPage)\<close>: the filter as a function of the
  list and the page it reads (the spec's \<open>AnnotationIndex.forPage\<close>), and the constant
  \<open>annotations\<close> of line 97.
\<close>

definition forPage :: "Element list \<Rightarrow> int \<Rightarrow> Element list" where
  "forPage els p = filter (\<lambda>e. page e = p) els"

definition annotations :: "PdfViewer \<Rightarrow> Element list" where
  "annotations v = forPage (elements v) (currentPage v)"

definition overlay :: "number \<Rightarrow> nat \<Rightarrow> Element \<Rightarrow> Overlay" where
  "overlay w index el =
    (let px = project w (bbox el);
         x_min = js_at px 0; y_min = js_at px 1; x_max = js_at px 2; y_max = js_at px 3;
         height = js_sub y_max y_min;
         width = js_sub x_max x_min
     in \<lparr>key = index, border = border_class (type el),
         style_left = x_min, style_top = y_min, style_width = width, style_height = height,
         title = ''Type: '' @ type el\<rparr>)"

text \<open>\<open>pageWidth > 0 && annotations.map((el, index) => ...)\<close>.\<close>

definition overlays :: "PdfViewer \<Rightarrow> Overlay list" where
  "overlays v =
    (if js_lt (Fin 0) (pageWidth v)
     then map (\<lambda>(index, el). overlay (pageWidth v) index el) (enumerate 0 (annotations v))
     else [])"

text \<open>
  What the component returns holds the overlays only past two guards: the early return
  of lines 100-106 while there is no URL, and the error branch of lines 110-116 while
  the error text is truthy.
\<close>

definition shown_overlays :: "PdfViewer \<Rightarrow> Overlay list" where
  "shown_overlays v =
    (case fileUrl v of
       None \<Rightarrow> []
     | Some url \<Rightarrow>
        (case error v of
           None \<Rightarrow> overlays v
         | Some e \<Rightarrow> if e \<noteq> [] then [] else overlays v))"

text \<open>The measured width of the page container (lines 93-95, 130).\<close>

definition handleResize :: "number \<Rightarrow> PdfViewer \<Rightarrow> PdfViewer" where
  "handleResize width v = v\<lparr>pageWidth := width\<rparr>"

subsection \<open>Load callbacks (lines 56-91)\<close>

text \<open>The host's \<open>onPageChange\<close> is \<open>setCurrentPage\<close> (page.tsx, line 129).\<close>

definition onPageChange :: "int \<Rightarrow> PdfViewer \<Rightarrow> PdfViewer" where
  "onPageChange p v = v\<lparr>currentPage := p\<rparr>"

definition onDocumentLoadSuccess :: "int \<Rightarrow> PdfViewer \<Rightarrow> PdfViewer" where
  "onDocumentLoadSuccess n v =
    (onPageChange 1 (v\<lparr>numPages := Some n, error := None\<rparr>))\<lparr>loadProgress := None\<rparr>"

text \<open>\<open>String.prototype.includes\<close>: the needle occurs at some position of the string.\<close>

fun js_includes :: "string \<Rightarrow> string \<Rightarrow> bool" where
  "js_includes [] needle = (needle = [])"
| "js_includes (c # cs) needle = (prefix needle (c # cs) \<or> js_includes cs needle)"

definition worker_text :: string where
  "worker_text =
    ''PDF worker failed to load. Please check your internet connection and try again.''"

definition corrupt_text :: string where
  "corrupt_text = ''The PDF file appears to be corrupted or invalid.''"

text \<open>The text computed at lines 68-75 from \<open>error.message\<close>.\<close>

definition errorMessage :: "string \<Rightarrow> string" where
  "errorMessage message =
    (if js_includes message ''Worker'' \<or> js_includes message ''worker'' then worker_text
     else if js_includes message ''Invalid'' \<or> js_includes message ''corrupted'' then corrupt_text
     else ''Failed to load PDF file: '' @ message)"

definition onDocumentLoadError :: "string \<Rightarrow> PdfViewer \<Rightarrow> PdfViewer" where
  "onDocumentLoadError message v = v\<lparr>error := Some (errorMessage message)\<rparr>"

text \<open>
  The spec's error taxonomy, read off the surfaced text: the code stores a text only, and
  each kind has a text of its own.
\<close>

datatype ErrorKind = WorkerUnavailable | CorruptDocument | Unknown

definition surfaced_kind :: "string \<Rightarrow> ErrorKind" where
  "surfaced_kind txt =
    (if txt = worker_text then WorkerUnavailable
     else if txt = corrupt_text then CorruptDocument
     else Unknown)"

text \<open>\<open>Math.min(100, Math.round((loaded / total) * 100))\<close> (line 85).\<close>

definition pct :: "number \<Rightarrow> number \<Rightarrow> number" where
  "pct l t = Math_min (Fin 100) (Math_round (fmul (fdiv l t) (Fin 100)))"

text \<open>
  Lines 80-91. \<open>if (!progress) return\<close>; then \<open>if (loaded && total)\<close>, which a number
  passes when it is present, not zero and not \<open>NaN\<close>.
\<close>

definition onDocumentLoadProgress :: "Progress option \<Rightarrow> PdfViewer \<Rightarrow> PdfViewer" where
  "onDocumentLoadProgress progress v =
    (case progress of
       None \<Rightarrow> v
     | Some pr \<Rightarrow>
        (case loaded pr of
           None \<Rightarrow> v
         | Some l \<Rightarrow>
            (case total pr of
               None \<Rightarrow> v
             | Some t \<Rightarrow>
                if truthy_number l \<and> truthy_number t
                then v\<lparr>loadProgress := Some (pct l t)\<rparr>
                else v)))"

text \<open>
  What the decode engine reports, and a report together with the object URL whose load
  produced it. \<open>Document\<close> is given the three handlers as props and calls them with the
  payload alone, so \<open>deliver\<close> has nothing to compare \<open>origin\<close> with.
\<close>

datatype LoadEvent = Loaded int | Failed string | Reported "Progress option"

fun handle :: "LoadEvent \<Rightarrow> PdfViewer \<Rightarrow> PdfViewer" where
  "handle (Loaded n) v = onDocumentLoadSuccess n v"
| "handle (Failed message) v = onDocumentLoadError message v"
| "handle (Reported progress) v = onDocumentLoadProgress progress v"

record Callback =
  origin :: nat
  event :: LoadEvent

definition deliver :: "Callback \<Rightarrow> PdfViewer \<Rightarrow> PdfViewer" where
  "deliver cb v = handle (event cb) v"

text \<open>A report is stale when the URL that produced it is not the one the viewer holds.\<close>

definition stale :: "Callback \<Rightarrow> PdfViewer \<Rightarrow> bool" where
  "stale cb v = (fileUrl v \<noteq> Some (origin cb))"

subsection \<open>Page navigation (lines 185-203)\<close>

text \<open>
  The controls are rendered when \<open>numPages\<close> is truthy; a disabled button runs no
  handler.
\<close>

definition click_prev :: "PdfViewer \<Rightarrow> PdfViewer" where
  "click_prev v =
    (case numPages v of
       None \<Rightarrow> v
     | Some n \<Rightarrow>
        if n = 0 \<or> currentPage v \<le> 1 then v
        else onPageChange (max 1 (currentPage v - 1)) v)"

definition click_next :: "PdfViewer \<Rightarrow> PdfViewer" where
  "click_next v =
    (case numPages v of
       None \<Rightarrow> v
     | Some n \<Rightarrow>
        if n = 0 \<or> currentPage v \<ge> n then v
        else onPageChange (min n (currentPage v + 1)) v)"

datatype Nav = Prev | Next

fun navigate :: "Nav \<Rightarrow> PdfViewer \<Rightarrow> PdfViewer" where
  "navigate Prev v = click_prev v"
| "navigate Next v = click_next v"

definition navigate_all :: "Nav list \<Rightarrow> PdfViewer \<Rightarrow> PdfViewer" where
  "navigate_all ops v = fold navigate ops v"

subsection \<open>The object URL of the file (lines 44-54)\<close>

text \<open>
  The browser's URL registry, as the two lists of what was created and what was
  revoked, in order. \<open>URL.createObjectURL\<close> returns a URL it never returned before.
\<close>

record URLRegistry =
  created :: "nat list"
  revoked :: "nat list"

definition createObjectURL :: "URLRegistry \<Rightarrow> nat \<times> URLRegistry" where
  "createObjectURL r = (length (created r), r\<lparr>created := created r @ [length (created r)]\<rparr>)"

definition revokeObjectURL :: "nat \<Rightarrow> URLRegistry \<Rightarrow> URLRegistry" where
  "revokeObjectURL url r = r\<lparr>revoked := revoked r @ [url]\<rparr>"

definition live :: "URLRegistry \<Rightarrow> nat list" where
  "live r = filter (\<lambda>url. url \<notin> set (revoked r)) (created r)"

text \<open>The initial values of the state cells (lines 36-41).\<close>

definition initial :: "nat option \<Rightarrow> Element list \<Rightarrow> int \<Rightarrow> PdfViewer" where
  "initial f els cur =
    \<lparr>file_prop = f, elements = els, currentPage = cur,
     numPages = None, pageWidth = Fin 0, loadProgress = None, error = None, fileUrl = None,
     renderText = False, cleanup = None\<rparr>"

text \<open>
  The body of the effect: with a file it creates a URL, stores it and returns the cleanup
  that revokes it; without a file it returns no cleanup.
\<close>

definition file_effect :: "PdfViewer \<times> URLRegistry \<Rightarrow> PdfViewer \<times> URLRegistry" where
  "file_effect s =
    (case s of (v, r) \<Rightarrow>
      (case file_prop v of
         None \<Rightarrow> (v\<lparr>cleanup := None\<rparr>, r)
       | Some f \<Rightarrow>
          (case createObjectURL r of (url, r') \<Rightarrow>
            (v\<lparr>fileUrl := Some url, cleanup := Some url\<rparr>, r'))))"

definition run_cleanup :: "PdfViewer \<times> URLRegistry \<Rightarrow> PdfViewer \<times> URLRegistry" where
  "run_cleanup s =
    (case s of (v, r) \<Rightarrow>
      (case cleanup v of
         None \<Rightarrow> (v, r)
       | Some url \<Rightarrow> (v\<lparr>cleanup := None\<rparr>, revokeObjectURL url r)))"

text \<open>
  React runs the effect after the first render, reruns it when the dependency \<open>file\<close>
  is a different object (the earlier cleanup first), and runs the last cleanup when the
  component is removed.
\<close>

definition mount :: "nat option \<Rightarrow> Element list \<Rightarrow> int \<Rightarrow> URLRegistry \<Rightarrow> PdfViewer \<times> URLRegistry" where
  "mount f els cur r = file_effect (initial f els cur, r)"

definition set_file :: "nat option \<Rightarrow> PdfViewer \<times> URLRegistry \<Rightarrow> PdfViewer \<times> URLRegistry" where
  "set_file f s =
    (case s of (v, r) \<Rightarrow>
      if f = file_prop v then (v, r)
      else file_effect (run_cleanup (v\<lparr>file_prop := f\<rparr>, r)))"

definition unmount :: "PdfViewer \<times> URLRegistry \<Rightarrow> PdfViewer \<times> URLRegistry" where
  "unmount s = run_cleanup s"

definition swaps :: "nat option list \<Rightarrow> PdfViewer \<times> URLRegistry \<Rightarrow> PdfViewer \<times> URLRegistry" where
  "swaps fs s = fold set_file fs s"

text \<open>
  The registry before the viewer created anything, and the bookkeeping that every step
  keeps: the URLs are numbered in the order of their creation, and the created ones are
  the revoked ones followed by the one the pending cleanup holds.
\<close>

definition no_urls :: URLRegistry where
  "no_urls = \<lparr>created = [], revoked = []\<rparr>"

definition pending :: "PdfViewer \<Rightarrow> nat list" where
  "pending v = (case cleanup v of None \<Rightarrow> [] | Some url \<Rightarrow> [url])"

definition balanced :: "PdfViewer \<times> URLRegistry \<Rightarrow> bool" where
  "balanced s =
    (case s of (v, r) \<Rightarrow>
       created r = [0..<length (created r)] \<and> revoked r @ pending v = created r)"

section \<open>Rounding to a double\<close>

lemma ilog2_ge_one:
  fixes x :: rat
  assumes "1 \<le> x"
  shows "2 powi (ilog2 x) \<le> x \<and> x < 2 powi (ilog2 x + 1)"
proof -
  let ?n = "\<lfloor>x\<rfloor>"
  from assms have n: "0 < ?n" by simp
  then have b: "1 \<le> bitlen ?n"
    using bitlen_eq_zero_iff [of ?n] bitlen_nonneg [of ?n] by linarith
  from bitlen_bounds [OF n] have lo: "2 ^ nat (bitlen ?n - 1) \<le> ?n" and hi: "?n < 2 ^ nat (bitlen ?n)"
    by simp_all
  from lo have "(of_int (2 ^ nat (bitlen ?n - 1)) :: rat) \<le> of_int ?n"
    by (simp only: of_int_le_iff)
  then have "(2 :: rat) ^ nat (bitlen ?n - 1) \<le> of_int ?n" by simp
  also have "\<dots> \<le> x" by simp
  finally have l: "(2 :: rat) ^ nat (bitlen ?n - 1) \<le> x" .
  from hi have "?n + 1 \<le> 2 ^ nat (bitlen ?n)" by simp
  then have "(of_int (?n + 1) :: rat) \<le> of_int (2 ^ nat (bitlen ?n))"
    by (simp only: of_int_le_iff)
  then have "of_int ?n + 1 \<le> (2 :: rat) ^ nat (bitlen ?n)" by simp
  moreover have "x < of_int ?n + 1" by linarith
  ultimately have h: "x < (2 :: rat) ^ nat (bitlen ?n)" by simp
  from assms have e: "ilog2 x = bitlen ?n - 1" by (simp add: ilog2_def)
  from b l h show ?thesis
    unfolding e by (simp add: power_int_def)
qed

lemma ilog2_lt_one:
  fixes x :: rat
  assumes "0 < x" and "x < 1"
  shows "2 powi (ilog2 x) \<le> x \<and> x < 2 powi (ilog2 x + 1)"
proof -
  let ?y = "1 / x"
  let ?c = "\<lceil>?y\<rceil>"
  let ?k = "bitlen (?c - 1)"
  from assms have y: "1 < ?y" by simp
  then have c: "0 < ?c - 1" by (simp add: less_ceiling_iff)
  then have k: "1 \<le> ?k"
    using bitlen_eq_zero_iff [of "?c - 1"] bitlen_nonneg [of "?c - 1"] by linarith
  from bitlen_bounds [OF c] have lo: "2 ^ nat (?k - 1) \<le> ?c - 1" and hi: "?c - 1 < 2 ^ nat ?k"
    by simp_all
  from lo have "(of_int (2 ^ nat (?k - 1)) :: rat) \<le> of_int (?c - 1)"
    by (simp only: of_int_le_iff)
  then have "(2 :: rat) ^ nat (?k - 1) \<le> of_int ?c - 1" by simp
  moreover have "of_int ?c - 1 < ?y" by linarith
  ultimately have l: "(2 :: rat) ^ nat (?k - 1) < ?y" by simp
  from hi have "?c \<le> 2 ^ nat ?k" by simp
  then have "(of_int ?c :: rat) \<le> of_int (2 ^ nat ?k)"
    by (simp only: of_int_le_iff)
  then have ck: "of_int ?c \<le> (2 :: rat) ^ nat ?k" by simp
  have "?y \<le> of_int ?c" by (rule le_of_int_ceiling)
  also note ck
  finally have h: "?y \<le> (2 :: rat) ^ nat ?k" .
  from assms(1) h have a: "1 / (2 :: rat) ^ nat ?k \<le> x"
    by (simp add: field_simps)
  from assms(1) l have b: "x < 1 / (2 :: rat) ^ nat (?k - 1)"
    by (simp add: field_simps)
  from assms have e: "ilog2 x = - ?k" by (simp add: ilog2_def)
  have p: "(2 :: rat) powi (- ?k) = 1 / 2 ^ nat ?k"
    using k by (simp add: power_int_def field_simps)
  have q: "(2 :: rat) powi (- ?k + 1) = 1 / 2 ^ nat (?k - 1)"
  proof (cases "?k = 1")
    case True
    then show ?thesis by simp
  next
    case False
    with k have "- ?k + 1 < 0" by simp
    moreover have "nat (- (- ?k + 1)) = nat (?k - 1)" by simp
    ultimately show ?thesis by (simp add: power_int_def field_simps)
  qed
  from a b show ?thesis unfolding e p q by simp
qed

lemma ilog2_bounds:
  fixes x :: rat
  assumes "0 < x"
  shows "2 powi (ilog2 x) \<le> x \<and> x < 2 powi (ilog2 x + 1)"
  using assms ilog2_ge_one [of x] ilog2_lt_one [of x] by (cases "1 \<le> x") simp_all

lemma pow2_strict_mono:
  fixes a b :: int
  assumes "a < b"
  shows "(2 :: rat) powi (a + 1) \<le> 2 powi b"
  using assms by (intro power_int_increasing) simp_all

lemma ilog2_unique:
  fixes x :: rat
  assumes "2 powi e \<le> x" and "x < 2 powi (e + 1)"
  shows "ilog2 x = e"
proof -
  have "(0 :: rat) < 2 powi e" by simp
  with assms(1) have pos: "0 < x" by linarith
  note b = ilog2_bounds [OF pos]
  show ?thesis
  proof (rule ccontr)
    assume "ilog2 x \<noteq> e"
    then consider "ilog2 x < e" | "e < ilog2 x" by linarith
    then show False
    proof cases
      case 1
      then have "(2 :: rat) powi (ilog2 x + 1) \<le> 2 powi e" by (rule pow2_strict_mono)
      with b assms show False by linarith
    next
      case 2
      then have "(2 :: rat) powi (e + 1) \<le> 2 powi (ilog2 x)" by (rule pow2_strict_mono)
      with b assms show False by linarith
    qed
  qed
qed

lemma rne_eval:
  assumes "of_int m - 1 / 2 < y" and "y < of_int m + 1 / 2"
  shows "rne y = m"
proof -
  let ?f = "\<lfloor>y\<rfloor>"
  from assms have "?f = m \<or> ?f = m - 1" by linarith
  then show ?thesis
  proof
    assume f: "?f = m"
    with assms have "y - of_int ?f < 1 / 2" by simp
    with f show ?thesis by (simp add: rne_def Let_def)
  next
    assume f: "?f = m - 1"
    with assms have "1 / 2 < y - of_int ?f" by simp
    with f show ?thesis by (simp add: rne_def Let_def)
  qed
qed

lemma rne_of_int: "rne (of_int m) = m"
  by (rule rne_eval) simp_all


lemma rne_tie:
  assumes "y = of_int m + 1 / 2 \<or> y = of_int m - 1 / 2" and "even m"
  shows "rne y = m"
  using assms(1)
proof
  assume y: "y = of_int m + 1 / 2"
  then have "\<lfloor>y\<rfloor> = m" by linarith
  with y assms(2) show ?thesis by (simp add: rne_def Let_def)
next
  assume y: "y = of_int m - 1 / 2"
  then have f: "\<lfloor>y\<rfloor> = m - 1" by linarith
  with y have "y - of_int \<lfloor>y\<rfloor> = 1 / 2" by simp
  with f assms(2) show ?thesis by (simp add: rne_def Let_def)
qed

lemma rne_close: "\<bar>of_int (rne y) - y\<bar> \<le> 1 / 2"
proof -
  let ?f = "\<lfloor>y\<rfloor>"
  let ?d = "y - of_int ?f"
  have d: "0 \<le> ?d" "?d < 1" by linarith+
  consider "?d < 1 / 2" | "1 / 2 < ?d" | "?d = 1 / 2" by linarith
  then show ?thesis
  proof cases
    case 1
    then have "rne y = ?f" by (simp add: rne_def Let_def)
    with 1 d show ?thesis by simp
  next
    case 2
    then have "rne y = ?f + 1" by (simp add: rne_def Let_def)
    with 2 d show ?thesis by simp
  next
    case 3
    then have "rne y = ?f \<or> rne y = ?f + 1" by (simp add: rne_def Let_def)
    with 3 show ?thesis by auto
  qed
qed

lemma fl_finite:
  fixes x :: rat
  assumes "2 powi e \<le> \<bar>x\<bar>" and "\<bar>x\<bar> < 2 powi (e + 1)"
    and "- 1022 \<le> e" and "e \<le> 1022"
    and "rne (x / 2 powi (e - 52)) = m"
  shows "fl x = Fin (of_int m * 2 powi (e - 52))"
proof -
  let ?q = "(2 :: rat) powi (e - 52)"
  have q: "0 < ?q" by simp
  have "(0 :: rat) < 2 powi e" by simp
  with assms(1) have "0 < \<bar>x\<bar>" by linarith
  then have x: "x \<noteq> 0" by simp
  have i: "ilog2 \<bar>x\<bar> = e"
    using assms(1,2) by (rule ilog2_unique)
  with assms(3) have mx: "max (ilog2 \<bar>x\<bar>) (- 1022) = e" by simp
  note r = assms(5)
  have s: "(2 :: rat) powi (e + 1) = 2 ^ 53 * ?q"
  proof -
    have eq: "53 + (e - 52) = e + 1" by simp
    have "(2 :: rat) powi (e + 1) = 2 powi (53 + (e - 52))" by (simp only: eq)
    also have "\<dots> = 2 powi 53 * 2 powi (e - 52)"
      by (rule power_int_add) simp
    finally show ?thesis by simp
  qed
  have a: "\<bar>x / ?q\<bar> = \<bar>x\<bar> / ?q" using q by simp
  from assms(2) have "\<bar>x\<bar> < 2 ^ 53 * ?q" by (simp only: s)
  with q have "\<bar>x\<bar> / ?q < 2 ^ 53" by (simp only: pos_divide_less_eq)
  with a have "\<bar>x / ?q\<bar> < 2 ^ 53" by simp
  moreover have "\<bar>of_int m - x / ?q\<bar> \<le> 1 / 2"
    using rne_close [of "x / ?q"] r by simp
  ultimately have "\<bar>(of_int m :: rat)\<bar> < 2 ^ 53 + 1 / 2" by linarith
  then have "\<bar>(of_int m :: rat)\<bar> < of_int (2 ^ 53 + 1)" by simp
  then have "\<bar>m\<bar> < 2 ^ 53 + 1"
    by (metis of_int_abs of_int_less_iff)
  then have "\<bar>m\<bar> \<le> 2 ^ 53" by simp
  then have "(of_int \<bar>m\<bar> :: rat) \<le> of_int (2 ^ 53)" by (simp only: of_int_le_iff)
  then have m: "\<bar>(of_int m :: rat)\<bar> \<le> 2 ^ 53" by simp
  have "\<bar>of_int m * ?q\<bar> = \<bar>(of_int m :: rat)\<bar> * ?q"
    using q by (simp add: abs_mult)
  also have "\<dots> \<le> 2 ^ 53 * ?q"
    using m q by (simp add: mult_right_mono)
  also have "\<dots> = 2 powi (e + 1)" by (simp only: s)
  also have "\<dots> \<le> 2 powi 1023"
    using assms(4) by (intro power_int_increasing) simp_all
  also have "\<dots> < (2 :: rat) ^ 1024"
    by (simp add: power_int_def)
  finally have small: "\<not> 2 ^ 1024 \<le> \<bar>of_int m * ?q\<bar>" by simp
  show ?thesis
    using x small by (simp only: fl_def mx r Let_def if_False)
qed

lemma fl_int:
  assumes "\<bar>n\<bar> < 2 ^ 53"
  shows "fl (of_int n) = Fin (of_int n)"
proof (cases "n = 0")
  case True
  then show ?thesis by (simp add: fl_def)
next
  case False
  let ?x = "of_int n :: rat"
  let ?e = "ilog2 \<bar>?x\<bar>"
  from False have "1 \<le> \<bar>n\<bar>" by simp
  then have "(of_int 1 :: rat) \<le> of_int \<bar>n\<bar>" by (simp only: of_int_le_iff)
  then have one: "1 \<le> \<bar>?x\<bar>" by simp
  then have pos: "0 < \<bar>?x\<bar>" by linarith
  note b = ilog2_bounds [OF pos]
  have e0: "0 \<le> ?e"
  proof -
    from one have "?e = bitlen \<lfloor>\<bar>?x\<bar>\<rfloor> - 1" by (simp add: ilog2_def)
    moreover from one have "0 < \<lfloor>\<bar>?x\<bar>\<rfloor>" by simp
    then have "1 \<le> bitlen \<lfloor>\<bar>?x\<bar>\<rfloor>"
      using bitlen_eq_zero_iff [of "\<lfloor>\<bar>?x\<bar>\<rfloor>"] bitlen_nonneg [of "\<lfloor>\<bar>?x\<bar>\<rfloor>"]
      by linarith
    ultimately show ?thesis by simp
  qed
  have e52: "?e \<le> 52"
  proof (rule ccontr)
    assume "\<not> ?e \<le> 52"
    then have "53 \<le> ?e" by simp
    then have "(2 :: rat) powi 53 \<le> 2 powi ?e"
      by (intro power_int_increasing) simp_all
    with b have "(2 :: rat) ^ 53 \<le> \<bar>?x\<bar>" by simp
    then have "(of_int (2 ^ 53) :: rat) \<le> of_int \<bar>n\<bar>" by simp
    then have "2 ^ 53 \<le> \<bar>n\<bar>" by (simp only: of_int_le_iff)
    with assms show False by simp
  qed
  let ?k = "nat (52 - ?e)"
  have q: "(2 :: rat) powi (?e - 52) = 1 / 2 ^ ?k"
  proof (cases "?e = 52")
    case True
    then show ?thesis by simp
  next
    case False
    with e52 have "?e - 52 < 0" by simp
    moreover have "nat (- (?e - 52)) = ?k" by simp
    ultimately show ?thesis by (simp add: power_int_def field_simps)
  qed
  have d: "?x / 2 powi (?e - 52) = of_int (n * 2 ^ ?k)"
    unfolding q by simp
  have "fl ?x = Fin (of_int (n * 2 ^ ?k) * 2 powi (?e - 52))"
  proof (rule fl_finite)
    show "2 powi ?e \<le> \<bar>?x\<bar>" using b by simp
    show "\<bar>?x\<bar> < 2 powi (?e + 1)" using b by simp
    show "- 1022 \<le> ?e" using e0 by simp
    show "?e \<le> 1022" using e52 by simp
    show "rne (?x / 2 powi (?e - 52)) = n * 2 ^ ?k"
      unfolding d by (rule rne_of_int)
  qed
  also have "of_int (n * 2 ^ ?k) * 2 powi (?e - 52) = ?x"
    unfolding q by simp
  finally show ?thesis .
qed

text \<open>
  In the normal range the rounded value is within a relative \<open>2^(-53)\<close> of the exact
  one.
\<close>

lemma fl_normal:
  fixes x :: rat
  assumes "2 powi (- 1022) \<le> \<bar>x\<bar>" and "\<bar>x\<bar> < 2 powi 1023"
  shows "\<exists>r. fl x = Fin r \<and> \<bar>r - x\<bar> \<le> \<bar>x\<bar> / 2 ^ 53"
proof -
  let ?e = "ilog2 \<bar>x\<bar>"
  let ?q = "(2 :: rat) powi (?e - 52)"
  let ?m = "rne (x / ?q)"
  have "(0 :: rat) < 2 powi (- 1022)" by simp
  with assms(1) have pos: "0 < \<bar>x\<bar>" by linarith
  note b = ilog2_bounds [OF pos]
  have lo: "- 1022 \<le> ?e"
  proof (rule ccontr)
    assume "\<not> - 1022 \<le> ?e"
    then have "?e < - 1022" by simp
    then have "(2 :: rat) powi (?e + 1) \<le> 2 powi (- 1022)" by (rule pow2_strict_mono)
    with b assms(1) show False by linarith
  qed
  have hi: "?e \<le> 1022"
  proof (rule ccontr)
    assume "\<not> ?e \<le> 1022"
    then have "1023 \<le> ?e" by simp
    then have "(2 :: rat) powi 1023 \<le> 2 powi ?e"
      by (intro power_int_increasing) simp_all
    with b assms(2) show False by linarith
  qed
  have f: "fl x = Fin (of_int ?m * ?q)"
    using b lo hi by (intro fl_finite) simp_all
  have q: "0 < ?q" by simp
  have "\<bar>of_int ?m * ?q - x\<bar> = \<bar>of_int ?m - x / ?q\<bar> * ?q"
  proof -
    have "of_int ?m * ?q - x = (of_int ?m - x / ?q) * ?q"
      using q by (simp add: field_simps)
    then show ?thesis using q by (simp add: abs_mult)
  qed
  also have "\<dots> \<le> 1 / 2 * ?q"
    using rne_close [of "x / ?q"] q by (intro mult_right_mono) simp_all
  finally have err: "\<bar>of_int ?m * ?q - x\<bar> \<le> 1 / 2 * ?q" .
  have qe: "2 ^ 52 * ?q = 2 powi ?e"
  proof -
    have eq: "52 + (?e - 52) = ?e" by simp
    have "(2 :: rat) powi ?e = 2 powi (52 + (?e - 52))" by (simp only: eq)
    also have "\<dots> = 2 powi 52 * ?q" by (rule power_int_add) simp
    finally show ?thesis by simp
  qed
  from b have "2 powi ?e \<le> \<bar>x\<bar>" by simp
  with qe have "2 ^ 52 * ?q \<le> \<bar>x\<bar>" by simp
  then have "1 / 2 * ?q \<le> \<bar>x\<bar> / 2 ^ 53" by (simp add: field_simps)
  with err have "\<bar>of_int ?m * ?q - x\<bar> \<le> \<bar>x\<bar> / 2 ^ 53" by linarith
  with f show ?thesis by blast
qed

lemma fl_nonneg_close:
  fixes x :: rat
  assumes "0 \<le> x" and "x < 2 ^ 53" and "x = 0 \<or> 1 / 1000 \<le> x"
  shows "\<exists>r. fl x = Fin r \<and> \<bar>r - x\<bar> \<le> x / 2 ^ 53"
proof (cases "x = 0")
  case True
  then show ?thesis by (simp add: fl_def)
next
  case False
  with assms have x: "1 / 1000 \<le> x" by simp
  have "(2 :: rat) powi (- 1022) \<le> 2 powi (- 10)"
    by (intro power_int_increasing) simp_all
  also have "\<dots> \<le> 1 / 1000" by (simp add: power_int_def power_divide)
  finally have "2 powi (- 1022) \<le> \<bar>x\<bar>" using x by simp
  moreover have "(2 :: rat) ^ 53 \<le> 2 powi 1023"
    by (simp add: power_int_def)
  with assms have "\<bar>x\<bar> < 2 powi 1023" by simp
  ultimately obtain r where "fl x = Fin r" and "\<bar>r - x\<bar> \<le> \<bar>x\<bar> / 2 ^ 53"
    using fl_normal by blast
  with assms(1) show ?thesis by simp
qed

section \<open>Projection\<close>

lemma project_length: "length (project w b) = length b"
  by (simp add: project_def)

lemma project_nth:
  assumes "i < length b"
  shows "project w b ! i = fdiv (fmul (b ! i) w) (Fin 1000)"
  using assms by (simp add: project_def)

lemma project_update:
  "project w (b[i := x]) = (project w b)[i := fdiv (fmul x w) (Fin 1000)]"
  by (simp add: project_def map_update)

lemma overlay_of_four:
  assumes "length (bbox el) = 4"
  shows "style_left (overlay w k el) = Some (fdiv (fmul (bbox el ! 0) w) (Fin 1000))
    \<and> style_top (overlay w k el) = Some (fdiv (fmul (bbox el ! 1) w) (Fin 1000))
    \<and> style_width (overlay w k el)
        = fsub (fdiv (fmul (bbox el ! 2) w) (Fin 1000)) (fdiv (fmul (bbox el ! 0) w) (Fin 1000))
    \<and> style_height (overlay w k el)
        = fsub (fdiv (fmul (bbox el ! 3) w) (Fin 1000)) (fdiv (fmul (bbox el ! 1) w) (Fin 1000))"
proof -
  from assms obtain a b c d where "bbox el = [a, b, c, d]"
    by (auto simp add: eval_nat_numeral length_Suc_conv)
  then show ?thesis
    by (simp add: overlay_def js_at_def js_sub_def to_number_def Let_def project_def
        eval_nat_numeral)
qed

text \<open>
  With an integer coordinate in [0,1000] and an integer width below \<open>2^43\<close> the product
  is below \<open>2^53\<close> and exact, so only the quotient is rounded.
\<close>

lemma project_integers:
  assumes "0 \<le> c" and "c \<le> 1000" and "0 < n" and "n < 2 ^ 43"
  shows "fdiv (fmul (Fin (of_int c)) (Fin (of_int n))) (Fin 1000)
    = fl (of_int c * of_int n / 1000)"
proof -
  from assms have "c * n \<le> 1000 * n" by (simp add: mult_right_mono)
  also from assms(4) have "\<dots> < 1000 * 2 ^ 43" by simp
  also have "\<dots> < (2 :: int) ^ 53" by simp
  finally have u: "c * n < 2 ^ 53" .
  from assms have "0 \<le> c * n" by simp
  with u have "\<bar>c * n\<bar> < 2 ^ 53" by simp
  then have "fl (of_int (c * n)) = Fin (of_int (c * n))" by (rule fl_int)
  then have "fmul (Fin (of_int c)) (Fin (of_int n)) = Fin (of_int c * of_int n)"
    by simp
  then show ?thesis by simp
qed

lemma fl_small_integers:
  "fl 80000 = Fin 80000" "fl 720000 = Fin 720000" "fl 160000 = Fin 160000"
  "fl 80 = Fin 80" "fl 720 = Fin 720" "fl 160 = Fin 160" "fl 640 = Fin 640"
  "fl (- 640) = Fin (- 640)" "fl 9 = Fin 9" "fl 7 = Fin 7" "fl 21 = Fin 21"
  using fl_int [of 80000] fl_int [of 720000] fl_int [of 160000] fl_int [of 80]
    fl_int [of 720] fl_int [of 160] fl_int [of 640] fl_int [of "- 640"] fl_int [of 9]
    fl_int [of 7] fl_int [of 21]
  by simp_all

lemma fl_9_1000: "fl (9 / 1000) = Fin (5188146770730811 / 576460752303423488)"
proof -
  have "rne ((9 / 1000) / 2 powi (- 7 - 52)) = 5188146770730811"
    by (rule rne_eval) (simp_all add: power_int_def power_divide)
  then show ?thesis
    using fl_finite [of "- 7" "9 / 1000" "5188146770730811"]
    by (simp add: power_int_def power_divide)
qed

lemma fl_1_1000: "fl (1 / 1000) = Fin (1152921504606847 / 1152921504606846976)"
proof -
  have "rne ((1 / 1000) / 2 powi (- 10 - 52)) = 4611686018427388"
    by (rule rne_eval) (simp_all add: power_int_def power_divide)
  then show ?thesis
    using fl_finite [of "- 10" "1 / 1000" "4611686018427388"]
    by (simp add: power_int_def power_divide)
qed

lemma fl_9_times_thousandth: "fl (9 * (1152921504606847 / 1152921504606846976)) = Fin (1297036692682703 / 144115188075855872)"
proof -
  have "rne ((9 * (1152921504606847 / 1152921504606846976)) / 2 powi (- 7 - 52)) = 5188146770730812"
    by (rule rne_tie) (simp_all add: power_int_def power_divide)
  then show ?thesis
    using fl_finite [of "- 7" "9 * (1152921504606847 / 1152921504606846976)" "5188146770730812"]
    by (simp add: power_int_def power_divide)
qed

lemma fl_7_1000: "fl (7 / 1000) = Fin (8070450532247929 / 1152921504606846976)"
proof -
  have "rne ((7 / 1000) / 2 powi (- 8 - 52)) = 8070450532247929"
    by (rule rne_eval) (simp_all add: power_int_def power_divide)
  then show ?thesis
    using fl_finite [of "- 8" "7 / 1000" "8070450532247929"]
    by (simp add: power_int_def power_divide)
qed

lemma fl_21_1000: "fl (21 / 1000) = Fin (6052837899185947 / 288230376151711744)"
proof -
  have "rne ((21 / 1000) / 2 powi (- 6 - 52)) = 6052837899185947"
    by (rule rne_eval) (simp_all add: power_int_def power_divide)
  then show ?thesis
    using fl_finite [of "- 6" "21 / 1000" "6052837899185947"]
    by (simp add: power_int_def power_divide)
qed

lemma fl_21_minus_7: "fl (6052837899185947 / 288230376151711744 - 8070450532247929 / 1152921504606846976) = Fin (4035225266123965 / 288230376151711744)"
proof -
  have "rne ((6052837899185947 / 288230376151711744 - 8070450532247929 / 1152921504606846976) / 2 powi (- 7 - 52)) = 8070450532247930"
    by (rule rne_tie) (simp_all add: power_int_def power_divide)
  then show ?thesis
    using fl_finite [of "- 7" "6052837899185947 / 288230376151711744 - 8070450532247929 / 1152921504606846976" "8070450532247930"]
    by (simp add: power_int_def power_divide)
qed

lemma project_scenario:
  "project (Fin 800) [Fin 100, Fin 100, Fin 900, Fin 200] = [Fin 80, Fin 80, Fin 720, Fin 160]"
  by (simp add: project_def fl_small_integers)

text \<open>
  C1 as stated fails: at width 1 the coordinate 9 is projected to the double nearest to
  9/1000, which is neither the rational 9/1000 nor the double product of 9 and the
  double \<open>1 / 1000\<close>.
\<close>

theorem project_scaling_counterexample:
  "project (Fin 1) [Fin 9, Fin 0, Fin 0, Fin 0] ! 0 \<noteq> Fin (9 * (1 / 1000))
   \<and> project (Fin 1) [Fin 9, Fin 0, Fin 0, Fin 0] ! 0
       \<noteq> fmul (Fin 9) (fdiv (Fin 1) (Fin 1000))"
proof -
  have p: "project (Fin 1) [Fin 9, Fin 0, Fin 0, Fin 0] ! 0 = Fin (5188146770730811 / 576460752303423488)"
    by (simp add: project_def fl_small_integers fl_9_1000)
  have "fdiv (Fin 1) (Fin 1000) = Fin (1152921504606847 / 1152921504606846976)"
    by (simp add: fl_1_1000)
  then have m: "fmul (Fin 9) (fdiv (Fin 1) (Fin 1000)) = Fin (1297036692682703 / 144115188075855872)"
    using fl_9_times_thousandth by simp
  show ?thesis unfolding p m by simp
qed

text \<open>
  C1, amended. For a bounding box of four components, each in [0,1000], and a width
  \<open>w > 0\<close>, the projection is the box of four whose component at each position is the
  double \<open>(c * w) / 1000\<close> of the component \<open>c\<close> there: the product rounded to a
  double, and its quotient by 1000 rounded again. The components are independent:
  replacing one replaces the projected one at the same position and no other. Where the
  component and the width are integers and the width is below \<open>2^43\<close>, the product is
  exact and the projected component is \<open>c * w / 1000\<close> rounded once. The overlay is
  placed at the first two projected components and sized by the double differences. The
  box [100,100,900,200] at width 800 projects to [80,80,720,160], an overlay 640 wide and
  80 high.
\<close>

theorem project_rounds_each_component:
  assumes "js_lt (Fin 0) w" and "length (bbox el) = 4"
    and "\<forall>c \<in> set (bbox el). \<not> js_lt c (Fin 0) \<and> \<not> js_lt (Fin 1000) c \<and> c \<noteq> NaN"
  shows "length (project w (bbox el)) = 4
    \<and> (\<forall>i < 4. project w (bbox el) ! i = fdiv (fmul (bbox el ! i) w) (Fin 1000))
    \<and> (\<forall>i x. project w ((bbox el)[i := x])
          = (project w (bbox el))[i := fdiv (fmul x w) (Fin 1000)])
    \<and> (\<forall>i < 4. \<forall>c n. bbox el ! i = Fin (of_int c) \<and> w = Fin (of_int n) \<and> n < 2 ^ 43
          \<longrightarrow> project w (bbox el) ! i = fl (of_int c * of_int n / 1000))
    \<and> style_left (overlay w k el) = Some (project w (bbox el) ! 0)
    \<and> style_top (overlay w k el) = Some (project w (bbox el) ! 1)
    \<and> style_width (overlay w k el) = fsub (project w (bbox el) ! 2) (project w (bbox el) ! 0)
    \<and> style_height (overlay w k el) = fsub (project w (bbox el) ! 3) (project w (bbox el) ! 1)
    \<and> project (Fin 800) [Fin 100, Fin 100, Fin 900, Fin 200] = [Fin 80, Fin 80, Fin 720, Fin 160]
    \<and> style_width (overlay (Fin 800) k \<lparr>type = t, bbox = [Fin 100, Fin 100, Fin 900, Fin 200], page = p\<rparr>)
        = Fin 640
    \<and> style_height (overlay (Fin 800) k \<lparr>type = t, bbox = [Fin 100, Fin 100, Fin 900, Fin 200], page = p\<rparr>)
        = Fin 80"
proof -
  have len: "length (project w (bbox el)) = 4"
    using assms(2) by (simp add: project_length)
  have each: "\<forall>i < 4. project w (bbox el) ! i = fdiv (fmul (bbox el ! i) w) (Fin 1000)"
    using assms(2) by (simp add: project_nth)
  have indep: "\<forall>i x. project w ((bbox el)[i := x])
      = (project w (bbox el))[i := fdiv (fmul x w) (Fin 1000)]"
    by (simp add: project_update)
  have ints: "\<forall>i < 4. \<forall>c n. bbox el ! i = Fin (of_int c) \<and> w = Fin (of_int n) \<and> n < 2 ^ 43
      \<longrightarrow> project w (bbox el) ! i = fl (of_int c * of_int n / 1000)"
  proof (intro allI impI)
    fix i :: nat and c n :: int
    assume i: "i < 4"
    assume h: "bbox el ! i = Fin (of_int c) \<and> w = Fin (of_int n) \<and> n < 2 ^ 43"
    from i assms(2) have "bbox el ! i \<in> set (bbox el)" by simp
    with assms(3) h have "\<not> js_lt (Fin (of_int c)) (Fin 0)"
      and "\<not> js_lt (Fin 1000) (Fin (of_int c))"
      by force+
    then have c: "0 \<le> c" "c \<le> 1000" by simp_all
    from assms(1) h have n: "0 < n" by simp
    have "project w (bbox el) ! i = fdiv (fmul (bbox el ! i) w) (Fin 1000)"
      using each i by blast
    also have "\<dots> = fdiv (fmul (Fin (of_int c)) (Fin (of_int n))) (Fin 1000)"
      using h by simp
    also have "\<dots> = fl (of_int c * of_int n / 1000)"
      using c n h by (intro project_integers) simp_all
    finally show "project w (bbox el) ! i = fl (of_int c * of_int n / 1000)" .
  qed
  have box: "style_left (overlay w k el) = Some (project w (bbox el) ! 0)
    \<and> style_top (overlay w k el) = Some (project w (bbox el) ! 1)
    \<and> style_width (overlay w k el) = fsub (project w (bbox el) ! 2) (project w (bbox el) ! 0)
    \<and> style_height (overlay w k el) = fsub (project w (bbox el) ! 3) (project w (bbox el) ! 1)"
    using overlay_of_four [OF assms(2), of w k] assms(2) by (simp add: project_nth)
  have exo: "style_width (overlay (Fin 800) k \<lparr>type = t, bbox = [Fin 100, Fin 100, Fin 900, Fin 200], page = p\<rparr>)
        = Fin 640
    \<and> style_height (overlay (Fin 800) k \<lparr>type = t, bbox = [Fin 100, Fin 100, Fin 900, Fin 200], page = p\<rparr>)
        = Fin 80"
    using overlay_of_four [of "\<lparr>type = t, bbox = [Fin 100, Fin 100, Fin 900, Fin 200], page = p\<rparr>"
        "Fin 800" k]
    by (simp add: fl_small_integers)
  from len each indep ints box project_scenario exo show ?thesis by blast
qed

theorem project_rounds_each_component_witness:
  "project (Fin 7) [Fin 1, Fin 0, Fin 3, Fin 0] ! 0 = Fin (8070450532247929 / 1152921504606846976)
   \<and> project (Fin 7) [Fin 1, Fin 0, Fin 3, Fin 0] ! 2 = Fin (6052837899185947 / 288230376151711744)
   \<and> style_left (overlay (Fin 7) 0 \<lparr>type = ''table'', bbox = [Fin 1, Fin 0, Fin 3, Fin 0], page = 1\<rparr>)
       = Some (Fin (8070450532247929 / 1152921504606846976))
   \<and> style_width (overlay (Fin 7) 0 \<lparr>type = ''table'', bbox = [Fin 1, Fin 0, Fin 3, Fin 0], page = 1\<rparr>)
       = Fin (4035225266123965 / 288230376151711744)
   \<and> style_height (overlay (Fin 7) 0 \<lparr>type = ''table'', bbox = [Fin 1, Fin 0, Fin 3, Fin 0], page = 1\<rparr>)
       = Fin 0"
proof -
  let ?el = "\<lparr>type = ''table'', bbox = [Fin 1, Fin 0, Fin 3, Fin 0], page = 1\<rparr>"
  have h1: "js_lt (Fin 0) (Fin 7)" by simp
  have h2: "length (bbox ?el) = 4" by simp
  have h3: "\<forall>c \<in> set (bbox ?el). \<not> js_lt c (Fin 0) \<and> \<not> js_lt (Fin 1000) c \<and> c \<noteq> NaN"
    by simp
  note t = project_rounds_each_component [OF h1 h2 h3, of 0 "''table''" 1]
  from t have e: "\<forall>i < 4. \<forall>c n. bbox ?el ! i = Fin (of_int c) \<and> Fin 7 = Fin (of_int n) \<and> n < 2 ^ 43
      \<longrightarrow> project (Fin 7) (bbox ?el) ! i = fl (of_int c * of_int n / 1000)"
    by blast
  have "(0 :: nat) < 4" by simp
  moreover have "bbox ?el ! 0 = Fin (of_int 1) \<and> Fin 7 = Fin (of_int 7) \<and> (7 :: int) < 2 ^ 43"
    by simp
  ultimately have "project (Fin 7) (bbox ?el) ! 0 = fl (of_int 1 * of_int 7 / 1000)"
    using e by blast
  then have p0: "project (Fin 7) [Fin 1, Fin 0, Fin 3, Fin 0] ! 0 = Fin (8070450532247929 / 1152921504606846976)"
    by (simp add: fl_7_1000)
  have "(2 :: nat) < 4" by simp
  moreover have "bbox ?el ! 2 = Fin (of_int 3) \<and> Fin 7 = Fin (of_int 7) \<and> (7 :: int) < 2 ^ 43"
    by simp
  ultimately have "project (Fin 7) (bbox ?el) ! 2 = fl (of_int 3 * of_int 7 / 1000)"
    using e by blast
  then have p2: "project (Fin 7) [Fin 1, Fin 0, Fin 3, Fin 0] ! 2 = Fin (6052837899185947 / 288230376151711744)"
    by (simp add: fl_21_1000)
  have p1: "project (Fin 7) (bbox ?el) ! 1 = Fin 0" and p3: "project (Fin 7) (bbox ?el) ! 3 = Fin 0"
    by (simp_all add: project_def fl_def)
  from t have "style_left (overlay (Fin 7) 0 ?el) = Some (project (Fin 7) (bbox ?el) ! 0)"
    by blast
  with p0 have l: "style_left (overlay (Fin 7) 0 ?el) = Some (Fin (8070450532247929 / 1152921504606846976))"
    by simp
  from t have "style_width (overlay (Fin 7) 0 ?el)
      = fsub (project (Fin 7) (bbox ?el) ! 2) (project (Fin 7) (bbox ?el) ! 0)"
    by blast
  with p0 p2 have w: "style_width (overlay (Fin 7) 0 ?el) = Fin (4035225266123965 / 288230376151711744)"
    using fl_21_minus_7 by simp
  from t have "style_height (overlay (Fin 7) 0 ?el)
      = fsub (project (Fin 7) (bbox ?el) ! 3) (project (Fin 7) (bbox ?el) ! 1)"
    by blast
  with p1 p3 have h: "style_height (overlay (Fin 7) 0 ?el) = Fin 0"
    by (simp add: fl_def)
  show ?thesis
    by (intro conjI) (fact p0, fact p2, fact l, fact w, fact h)
qed

section \<open>Annotations of a page\<close>

lemma subseq_all_filter:
  assumes "subseq ys xs" and "\<forall>y \<in> set ys. P y"
  shows "subseq ys (filter P xs)"
proof -
  from assms(1) have "subseq (filter P ys) (filter P xs)" by simp
  moreover from assms(2) have "filter P ys = ys" by simp
  ultimately show ?thesis by simp
qed

text \<open>
  C2. For every annotation list and every page, the selection for the page is the
  subsequence of the annotations whose page is the queried one, in their original order:
  it is a subsequence of the input, holds matching annotations only, holds each matching
  annotation as often as the input does, and every subsequence of matching annotations is
  a subsequence of it. The empty list and a list with no match give the empty selection.
\<close>

theorem forPage_exact_subsequence:
  "forPage els p = filter (\<lambda>e. page e = p) els
   \<and> subseq (forPage els p) els
   \<and> (\<forall>e \<in> set (forPage els p). page e = p)
   \<and> (\<forall>e \<in> set els. page e = p \<longrightarrow> count_list (forPage els p) e = count_list els e)
   \<and> (\<forall>ys. subseq ys els \<and> (\<forall>e \<in> set ys. page e = p) \<longrightarrow> subseq ys (forPage els p))
   \<and> forPage [] p = []
   \<and> ((\<forall>e \<in> set els. page e \<noteq> p) \<longrightarrow> forPage els p = [])
   \<and> annotations v = forPage (elements v) (currentPage v)"
proof -
  have c: "count_list (filter P xs) e = count_list xs e" if "P e" for P and xs :: "Element list" and e
    using that by (induction xs) auto
  have n: "filter P xs = []" if "\<forall>e \<in> set xs. \<not> P e" for P and xs :: "Element list"
    using that by (induction xs) auto
  show ?thesis
    unfolding forPage_def annotations_def
    using c [of "\<lambda>e. page e = p"] n [of els "\<lambda>e. page e = p"] subseq_all_filter [of _ els "\<lambda>e. page e = p"]
    by auto
qed

theorem forPage_exact_subsequence_witness:
  "forPage [\<lparr>type = ''title'', bbox = [Fin 100, Fin 100, Fin 900, Fin 200], page = 1\<rparr>,
            \<lparr>type = ''table'', bbox = [Fin 0, Fin 0, Fin 1000, Fin 1000], page = 2\<rparr>,
            \<lparr>type = ''figure'', bbox = [Fin 0, Fin 0, Fin 10, Fin 10], page = 1\<rparr>] 1
   = [\<lparr>type = ''title'', bbox = [Fin 100, Fin 100, Fin 900, Fin 200], page = 1\<rparr>,
      \<lparr>type = ''figure'', bbox = [Fin 0, Fin 0, Fin 10, Fin 10], page = 1\<rparr>]
   \<and> subseq [\<lparr>type = ''title'', bbox = [Fin 100, Fin 100, Fin 900, Fin 200], page = 1\<rparr>,
      \<lparr>type = ''figure'', bbox = [Fin 0, Fin 0, Fin 10, Fin 10], page = 1\<rparr>]
      [\<lparr>type = ''title'', bbox = [Fin 100, Fin 100, Fin 900, Fin 200], page = 1\<rparr>,
            \<lparr>type = ''table'', bbox = [Fin 0, Fin 0, Fin 1000, Fin 1000], page = 2\<rparr>,
            \<lparr>type = ''figure'', bbox = [Fin 0, Fin 0, Fin 10, Fin 10], page = 1\<rparr>]
   \<and> forPage [\<lparr>type = ''table'', bbox = [Fin 0, Fin 0, Fin 1000, Fin 1000], page = 2\<rparr>] 1 = []"
proof -
  let ?title = "\<lparr>type = ''title'', bbox = [Fin 100, Fin 100, Fin 900, Fin 200], page = 1\<rparr>"
  let ?table = "\<lparr>type = ''table'', bbox = [Fin 0, Fin 0, Fin 1000, Fin 1000], page = 2\<rparr>"
  let ?figure = "\<lparr>type = ''figure'', bbox = [Fin 0, Fin 0, Fin 10, Fin 10], page = 1\<rparr>"
  note t = forPage_exact_subsequence [of "[?title, ?table, ?figure]" 1 "initial None [] 1"]
  have a: "forPage [?title, ?table, ?figure] 1 = [?title, ?figure]"
    using t [THEN conjunct1] by simp
  have "subseq (forPage [?title, ?table, ?figure] 1) [?title, ?table, ?figure]"
    using t [THEN conjunct2, THEN conjunct1] .
  then have b: "subseq [?title, ?figure] [?title, ?table, ?figure]"
    unfolding a .
  have c: "forPage [?table] 1 = []"
    using forPage_exact_subsequence [of "[?table]" 1 "initial None [] 1", THEN conjunct1]
    by simp
  from a b c show ?thesis by blast
qed

section \<open>Navigation\<close>

lemma click_prev_page:
  assumes "numPages v = Some p" and "1 \<le> p" and "1 \<le> currentPage v"
  shows "currentPage (click_prev v) = max 1 (currentPage v - 1)"
  using assms by (simp add: click_prev_def onPageChange_def)

lemma click_next_page:
  assumes "numPages v = Some p" and "1 \<le> p" and "currentPage v \<le> p"
  shows "currentPage (click_next v) = min p (currentPage v + 1)"
  using assms by (simp add: click_next_def onPageChange_def)

lemma navigate_numPages: "numPages (navigate n v) = numPages v"
  by (cases n) (simp_all add: click_prev_def click_next_def onPageChange_def split: option.splits)

lemma navigate_in_range:
  assumes "numPages v = Some p" and "1 \<le> p" and "1 \<le> currentPage v" and "currentPage v \<le> p"
  shows "1 \<le> currentPage (navigate n v) \<and> currentPage (navigate n v) \<le> p"
proof (cases n)
  case Prev
  with assms show ?thesis using click_prev_page [of v p] by simp
next
  case Next
  with assms show ?thesis using click_next_page [of v p] by simp
qed

lemma navigate_all_in_range:
  assumes "numPages v = Some p" and "1 \<le> p" and "1 \<le> currentPage v" and "currentPage v \<le> p"
  shows "1 \<le> currentPage (navigate_all ns v) \<and> currentPage (navigate_all ns v) \<le> p"
  using assms
proof (induction ns arbitrary: v)
  case Nil
  then show ?case by (simp add: navigate_all_def)
next
  case (Cons n ns)
  have "numPages (navigate n v) = Some p"
    using Cons.prems(1) by (simp add: navigate_numPages)
  moreover have "1 \<le> currentPage (navigate n v) \<and> currentPage (navigate n v) \<le> p"
    using Cons.prems by (rule navigate_in_range)
  ultimately have "1 \<le> currentPage (navigate_all ns (navigate n v))
      \<and> currentPage (navigate_all ns (navigate n v)) \<le> p"
    using Cons.IH [of "navigate n v"] Cons.prems(2) by simp
  then show ?case by (simp add: navigate_all_def)
qed

text \<open>
  C6. Once the page count \<open>p \<ge> 1\<close> is known and the current page is in [1, p], Prev
  moves to \<open>max(1, currentPage - 1)\<close>, Next moves to \<open>min(p, currentPage + 1)\<close>,
  every sequence of Prev and Next leaves the current page in [1, p], and Next on page
  \<open>p\<close> and Prev on page 1 change nothing. The success of a load with \<open>p\<close> pages puts
  the viewer in such a state, so every sequence of Prev and Next after it stays in
  [1, p]. The operations are total: none has an error result.
\<close>

theorem navigation_stays_in_range:
  assumes "numPages v = Some p" and "1 \<le> p" and "1 \<le> currentPage v" and "currentPage v \<le> p"
  shows "currentPage (click_prev v) = max 1 (currentPage v - 1)
    \<and> currentPage (click_next v) = min p (currentPage v + 1)
    \<and> 1 \<le> currentPage (navigate_all ns v) \<and> currentPage (navigate_all ns v) \<le> p
    \<and> (currentPage v = p \<longrightarrow> click_next v = v)
    \<and> (currentPage v = 1 \<longrightarrow> click_prev v = v)
    \<and> 1 \<le> currentPage (navigate_all ns (onDocumentLoadSuccess p u))
    \<and> currentPage (navigate_all ns (onDocumentLoadSuccess p u)) \<le> p"
proof -
  have last: "currentPage v = p \<longrightarrow> click_next v = v"
    using assms(1) by (simp add: click_next_def)
  have first: "currentPage v = 1 \<longrightarrow> click_prev v = v"
    using assms(1) by (simp add: click_prev_def)
  have "numPages (onDocumentLoadSuccess p u) = Some p"
    and "currentPage (onDocumentLoadSuccess p u) = 1"
    by (simp_all add: onDocumentLoadSuccess_def onPageChange_def)
  with assms(2) have loaded: "1 \<le> currentPage (navigate_all ns (onDocumentLoadSuccess p u))
      \<and> currentPage (navigate_all ns (onDocumentLoadSuccess p u)) \<le> p"
    using navigate_all_in_range [of "onDocumentLoadSuccess p u" p ns] by simp
  from last first loaded show ?thesis
    using click_prev_page [OF assms(1,2,3)] click_next_page [OF assms(1,2,4)]
      navigate_all_in_range [OF assms, of ns]
    by simp
qed

theorem navigation_stays_in_range_witness:
  "numPages ((initial (Some 0) [] 3)\<lparr>numPages := Some 3\<rparr>) = Some 3
   \<and> currentPage (click_prev ((initial (Some 0) [] 3)\<lparr>numPages := Some 3\<rparr>)) = 2
   \<and> currentPage (click_next ((initial (Some 0) [] 3)\<lparr>numPages := Some 3\<rparr>)) = 3
   \<and> click_next ((initial (Some 0) [] 3)\<lparr>numPages := Some 3\<rparr>)
       = (initial (Some 0) [] 3)\<lparr>numPages := Some 3\<rparr>
   \<and> 1 \<le> currentPage (navigate_all [Next, Prev, Prev, Prev, Prev]
            ((initial (Some 0) [] 3)\<lparr>numPages := Some 3\<rparr>))
   \<and> currentPage (navigate_all [Next, Prev, Prev, Prev, Prev]
            ((initial (Some 0) [] 3)\<lparr>numPages := Some 3\<rparr>)) \<le> 3"
proof -
  let ?v = "(initial (Some 0) [] 3)\<lparr>numPages := Some 3\<rparr>"
  have n: "numPages ?v = Some 3" and c: "currentPage ?v = 3"
    by (simp_all add: initial_def)
  have t: "currentPage (click_prev ?v) = max 1 (currentPage ?v - 1)
    \<and> currentPage (click_next ?v) = min 3 (currentPage ?v + 1)
    \<and> 1 \<le> currentPage (navigate_all [Next, Prev, Prev, Prev, Prev] ?v)
    \<and> currentPage (navigate_all [Next, Prev, Prev, Prev, Prev] ?v) \<le> 3
    \<and> (currentPage ?v = 3 \<longrightarrow> click_next ?v = ?v)
    \<and> (currentPage ?v = 1 \<longrightarrow> click_prev ?v = ?v)
    \<and> 1 \<le> currentPage (navigate_all [Next, Prev, Prev, Prev, Prev] (onDocumentLoadSuccess 3 ?v))
    \<and> currentPage (navigate_all [Next, Prev, Prev, Prev, Prev] (onDocumentLoadSuccess 3 ?v)) \<le> 3"
    by (rule navigation_stays_in_range [of ?v 3]) (simp_all add: n c)
  from t c have "currentPage (click_prev ?v) = 2" by simp
  moreover from t c have "currentPage (click_next ?v) = 3" by simp
  moreover from t c have "click_next ?v = ?v" by blast
  ultimately show ?thesis using n t by blast
qed

section \<open>Error text\<close>

lemma js_includes_iff_sublist: "js_includes s needle \<longleftrightarrow> sublist needle s"
  by (induction s) (simp_all add: sublist_Cons_right)

lemma js_includes_append: "js_includes (pre @ s) s"
  by (simp add: js_includes_iff_sublist)

lemma failed_text_kind: "surfaced_kind (''Failed to load PDF file: '' @ m) = Unknown"
  by (simp add: surfaced_kind_def worker_text_def corrupt_text_def)

lemma worker_text_kind: "surfaced_kind worker_text = WorkerUnavailable"
  by (simp add: surfaced_kind_def)

lemma corrupt_text_kind: "surfaced_kind corrupt_text = CorruptDocument"
  by (simp add: surfaced_kind_def worker_text_def corrupt_text_def)

text \<open>
  C4 as stated fails: the message \<open>Invalid PDF structure.\<close> holds neither
  \<open>worker\<close> nor \<open>corrupted\<close>, and it is surfaced with the text of a corrupted
  document, its own text dropped.
\<close>

theorem errorMessage_claimed_kinds_counterexample:
  "\<not> (\<forall>message.
        (js_includes message ''worker''
           \<longrightarrow> surfaced_kind (errorMessage message) = WorkerUnavailable)
      \<and> (js_includes message ''corrupted''
           \<longrightarrow> surfaced_kind (errorMessage message) = CorruptDocument)
      \<and> (\<not> js_includes message ''worker'' \<and> \<not> js_includes message ''corrupted''
           \<longrightarrow> surfaced_kind (errorMessage message) = Unknown
             \<and> js_includes (errorMessage message) message))"
proof
  assume a: "\<forall>message.
        (js_includes message ''worker''
           \<longrightarrow> surfaced_kind (errorMessage message) = WorkerUnavailable)
      \<and> (js_includes message ''corrupted''
           \<longrightarrow> surfaced_kind (errorMessage message) = CorruptDocument)
      \<and> (\<not> js_includes message ''worker'' \<and> \<not> js_includes message ''corrupted''
           \<longrightarrow> surfaced_kind (errorMessage message) = Unknown
             \<and> js_includes (errorMessage message) message)"
  have n: "\<not> js_includes ''Invalid PDF structure.'' ''worker''
      \<and> \<not> js_includes ''Invalid PDF structure.'' ''corrupted''"
    by simp
  have e: "errorMessage ''Invalid PDF structure.'' = corrupt_text"
    by (simp add: errorMessage_def)
  from a n have "surfaced_kind (errorMessage ''Invalid PDF structure.'') = Unknown"
    by blast
  with e show False by (simp add: corrupt_text_kind)
qed

text \<open>
  C4, amended. A failure message that holds \<open>Worker\<close> or \<open>worker\<close> is surfaced as
  WorkerUnavailable; otherwise one that holds \<open>Invalid\<close> or \<open>corrupted\<close> is
  surfaced as CorruptDocument; every other message is surfaced as Unknown, with the text
  \<open>Failed to load PDF file: \<close> followed by the raw message. The surfaced text is what
  the error state holds after the failure.
\<close>

theorem errorMessage_classification:
  "(js_includes message ''Worker'' \<or> js_includes message ''worker''
      \<longrightarrow> errorMessage message = worker_text
        \<and> surfaced_kind (errorMessage message) = WorkerUnavailable)
   \<and> (\<not> js_includes message ''Worker'' \<and> \<not> js_includes message ''worker''
       \<and> (js_includes message ''Invalid'' \<or> js_includes message ''corrupted'')
      \<longrightarrow> errorMessage message = corrupt_text
        \<and> surfaced_kind (errorMessage message) = CorruptDocument)
   \<and> (\<not> js_includes message ''Worker'' \<and> \<not> js_includes message ''worker''
       \<and> \<not> js_includes message ''Invalid'' \<and> \<not> js_includes message ''corrupted''
      \<longrightarrow> errorMessage message = ''Failed to load PDF file: '' @ message
        \<and> surfaced_kind (errorMessage message) = Unknown
        \<and> js_includes (errorMessage message) message)
   \<and> error (onDocumentLoadError message v) = Some (errorMessage message)"
proof -
  have w: "errorMessage message = worker_text"
    if "js_includes message ''Worker'' \<or> js_includes message ''worker''"
    using that unfolding errorMessage_def by presburger
  have c: "errorMessage message = corrupt_text"
    if "\<not> js_includes message ''Worker''" and "\<not> js_includes message ''worker''"
      and "js_includes message ''Invalid'' \<or> js_includes message ''corrupted''"
    using that unfolding errorMessage_def by presburger
  have u: "errorMessage message = ''Failed to load PDF file: '' @ message"
    if "\<not> js_includes message ''Worker''" and "\<not> js_includes message ''worker''"
      and "\<not> js_includes message ''Invalid''" and "\<not> js_includes message ''corrupted''"
    using that unfolding errorMessage_def by presburger
  have e: "error (onDocumentLoadError message v) = Some (errorMessage message)"
    by (simp add: onDocumentLoadError_def)
  show ?thesis
    using w c u e worker_text_kind corrupt_text_kind failed_text_kind [of message]
      js_includes_append [of "''Failed to load PDF file: ''" message]
    by metis
qed

theorem errorMessage_classification_witness:
  "errorMessage ''Setting up fake worker failed'' = worker_text
   \<and> surfaced_kind (errorMessage ''Setting up fake worker failed'') = WorkerUnavailable
   \<and> surfaced_kind (errorMessage ''Invalid PDF structure.'') = CorruptDocument
   \<and> errorMessage ''Missing PDF'' = ''Failed to load PDF file: Missing PDF''
   \<and> surfaced_kind (errorMessage ''Missing PDF'') = Unknown
   \<and> js_includes (errorMessage ''Missing PDF'') ''Missing PDF''"
proof -
  let ?v = "initial None [] 1"
  have a: "js_includes ''Setting up fake worker failed'' ''Worker''
      \<or> js_includes ''Setting up fake worker failed'' ''worker''"
    by simp
  have b: "\<not> js_includes ''Invalid PDF structure.'' ''Worker''
      \<and> \<not> js_includes ''Invalid PDF structure.'' ''worker''
      \<and> (js_includes ''Invalid PDF structure.'' ''Invalid''
        \<or> js_includes ''Invalid PDF structure.'' ''corrupted'')"
    by simp
  have c: "\<not> js_includes ''Missing PDF'' ''Worker'' \<and> \<not> js_includes ''Missing PDF'' ''worker''
      \<and> \<not> js_includes ''Missing PDF'' ''Invalid'' \<and> \<not> js_includes ''Missing PDF'' ''corrupted''"
    by simp
  have "errorMessage ''Setting up fake worker failed'' = worker_text
      \<and> surfaced_kind (errorMessage ''Setting up fake worker failed'') = WorkerUnavailable"
    using errorMessage_classification [of "''Setting up fake worker failed''" ?v] a by blast
  moreover have "surfaced_kind (errorMessage ''Invalid PDF structure.'') = CorruptDocument"
    using errorMessage_classification [of "''Invalid PDF structure.''" ?v] b by blast
  moreover have h: "errorMessage ''Missing PDF'' = ''Failed to load PDF file: '' @ ''Missing PDF''
      \<and> surfaced_kind (errorMessage ''Missing PDF'') = Unknown
      \<and> js_includes (errorMessage ''Missing PDF'') ''Missing PDF''"
    using errorMessage_classification [of "''Missing PDF''" ?v] c by blast
  moreover from h have "errorMessage ''Missing PDF'' = ''Failed to load PDF file: Missing PDF''"
    by simp
  ultimately show ?thesis by blast
qed

section \<open>Progress reports\<close>

lemma progress_applies:
  assumes "loaded pr = Some l" and "total pr = Some t"
    and "truthy_number l" and "truthy_number t"
  shows "onDocumentLoadProgress (Some pr) v = v\<lparr>loadProgress := Some (pct l t)\<rparr>"
  using assms by (simp add: onDocumentLoadProgress_def)

lemma progress_skips:
  assumes "loaded pr = None \<or> total pr = None
    \<or> (\<exists>l. loaded pr = Some l \<and> \<not> truthy_number l)
    \<or> (\<exists>t. total pr = Some t \<and> \<not> truthy_number t)"
  shows "onDocumentLoadProgress (Some pr) v = v"
  using assms by (auto simp add: onDocumentLoadProgress_def split: option.splits)

lemma progress_absent: "onDocumentLoadProgress None v = v"
  by (simp add: onDocumentLoadProgress_def)

lemma Math_min_le: "\<not> js_lt x (Math_min x y)"
  by (cases x; cases y) (simp_all add: Math_min_def)

lemma pct_le_100: "\<not> js_lt (Fin 100) (pct l t)"
  unfolding pct_def by (rule Math_min_le)

lemma progress_cases:
  "loadProgress (onDocumentLoadProgress progress v) = loadProgress v
   \<or> (\<exists>l t. loadProgress (onDocumentLoadProgress progress v) = Some (pct l t))"
  by (auto simp add: onDocumentLoadProgress_def split: option.splits)

lemma fl_23_40: "fl (23 / 40) = Fin (2589569785738035 / 4503599627370496)"
proof -
  have "rne ((23 / 40) / 2 powi (- 1 - 52)) = 5179139571476070"
    by (rule rne_eval) (simp_all add: power_int_def power_divide)
  then show ?thesis
    using fl_finite [of "- 1" "23 / 40" "5179139571476070"]
    by (simp add: power_int_def power_divide)
qed

lemma fl_23_40_times_100: "fl (2589569785738035 / 4503599627370496 * 100) = Fin (8092405580431359 / 140737488355328)"
proof -
  have "rne ((2589569785738035 / 4503599627370496 * 100) / 2 powi (5 - 52)) = 8092405580431359"
    by (rule rne_eval) (simp_all add: power_int_def power_divide)
  then show ?thesis
    using fl_finite [of "5" "2589569785738035 / 4503599627370496 * 100" "8092405580431359"]
    by (simp add: power_int_def power_divide)
qed

lemma fl_quarter: "fl (1 / 4) = Fin (1 / 4)"
proof -
  have "rne ((1 / 4) / 2 powi (- 2 - 52)) = 4503599627370496"
    by (rule rne_eval) (simp_all add: power_int_def power_divide)
  then show ?thesis
    using fl_finite [of "- 2" "1 / 4" "4503599627370496"]
    by (simp add: power_int_def power_divide)
qed

lemma fl_half: "fl (1 / 2) = Fin (1 / 2)"
proof -
  have "rne ((1 / 2) / 2 powi (- 1 - 52)) = 4503599627370496"
    by (rule rne_eval) (simp_all add: power_int_def power_divide)
  then show ?thesis
    using fl_finite [of "- 1" "1 / 2" "4503599627370496"]
    by (simp add: power_int_def power_divide)
qed

lemma pct_23_40: "pct (Fin 23) (Fin 40) = Fin 57"
proof -
  have "fdiv (Fin 23) (Fin 40) = Fin (2589569785738035 / 4503599627370496)"
    by (simp add: fl_23_40)
  then have "fmul (fdiv (Fin 23) (Fin 40)) (Fin 100) = Fin (8092405580431359 / 140737488355328)"
    using fl_23_40_times_100 by simp
  moreover have "\<lfloor>(8092405580431359 / 140737488355328) + 1 / 2 :: rat\<rfloor> = 57"
    by (simp add: floor_eq_iff)
  ultimately have "Math_round (fmul (fdiv (Fin 23) (Fin 40)) (Fin 100)) = Fin 57"
    by simp
  then show ?thesis by (simp add: pct_def Math_min_def)
qed

lemma pct_50_200: "pct (Fin 50) (Fin 200) = Fin 25"
proof -
  have "fdiv (Fin 50) (Fin 200) = Fin (1 / 4)"
    by (simp add: fl_quarter)
  then have "fmul (fdiv (Fin 50) (Fin 200)) (Fin 100) = Fin 25"
    using fl_int [of 25] by simp
  moreover have "\<lfloor>25 + 1 / 2 :: rat\<rfloor> = 25"
    by (simp add: floor_eq_iff)
  ultimately have "Math_round (fmul (fdiv (Fin 50) (Fin 200)) (Fin 100)) = Fin 25"
    by simp
  then show ?thesis by (simp add: pct_def Math_min_def)
qed

lemma pct_50_100: "pct (Fin 50) (Fin 100) = Fin 50"
proof -
  have "fdiv (Fin 50) (Fin 100) = Fin (1 / 2)"
    by (simp add: fl_half)
  then have "fmul (fdiv (Fin 50) (Fin 100)) (Fin 100) = Fin 50"
    using fl_int [of 50] by simp
  moreover have "\<lfloor>50 + 1 / 2 :: rat\<rfloor> = 50"
    by (simp add: floor_eq_iff)
  ultimately have "Math_round (fmul (fdiv (Fin 50) (Fin 100)) (Fin 100)) = Fin 50"
    by simp
  then show ?thesis by (simp add: pct_def Math_min_def)
qed

text \<open>
  C5 as stated fails: a report with \<open>loaded = 0\<close> and \<open>total = 10\<close> does not store
  the progress 0; the guard \<open>loaded && total\<close> takes 0 for absent and the stored
  progress stays unknown.
\<close>

theorem progress_zero_loaded_counterexample:
  "\<not> (\<forall>pr v l t.
        (loaded pr = Some l \<and> total pr = Some t \<and> js_lt (Fin 0) t
           \<longrightarrow> loadProgress (onDocumentLoadProgress (Some pr) v)
                 = Some (Math_min (Fin 100) (Math_round (fmul (fdiv l t) (Fin 100)))))
      \<and> (loaded pr = None \<or> total pr = None \<or> (total pr = Some t \<and> \<not> js_lt (Fin 0) t)
           \<longrightarrow> loadProgress (onDocumentLoadProgress (Some pr) v) = loadProgress v))"
proof
  assume a: "\<forall>pr v l t.
        (loaded pr = Some l \<and> total pr = Some t \<and> js_lt (Fin 0) t
           \<longrightarrow> loadProgress (onDocumentLoadProgress (Some pr) v)
                 = Some (Math_min (Fin 100) (Math_round (fmul (fdiv l t) (Fin 100)))))
      \<and> (loaded pr = None \<or> total pr = None \<or> (total pr = Some t \<and> \<not> js_lt (Fin 0) t)
           \<longrightarrow> loadProgress (onDocumentLoadProgress (Some pr) v) = loadProgress v)"
  let ?pr = "\<lparr>loaded = Some (Fin 0), total = Some (Fin 10)\<rparr>"
  let ?v = "initial (Some 0) [] 1"
  have "loaded ?pr = Some (Fin 0) \<and> total ?pr = Some (Fin 10) \<and> js_lt (Fin 0) (Fin 10)"
    by simp
  with a have "loadProgress (onDocumentLoadProgress (Some ?pr) ?v)
      = Some (Math_min (Fin 100) (Math_round (fmul (fdiv (Fin 0) (Fin 10)) (Fin 100))))"
    by blast
  moreover have "loadProgress (onDocumentLoadProgress (Some ?pr) ?v) = None"
    by (simp add: onDocumentLoadProgress_def initial_def)
  ultimately show False by simp
qed

text \<open>
  C5, amended. When \<open>loaded\<close> and \<open>total\<close> are both present and both truthy (neither
  zero nor \<open>NaN\<close>) the stored progress becomes
  \<open>Math.min(100, Math.round((loaded / total) * 100))\<close>, the quotient and the product
  each rounded to a double; with no report, a field absent or a field zero or \<open>NaN\<close>,
  the state is unchanged. A stored progress never exceeds 100 once it did not before,
  and a report with \<open>loaded = 0\<close> changes nothing.
\<close>

theorem onDocumentLoadProgress_effect:
  "(loaded pr = Some l \<and> total pr = Some t \<and> truthy_number l \<and> truthy_number t
      \<longrightarrow> onDocumentLoadProgress (Some pr) v
          = v\<lparr>loadProgress :=
              Some (Math_min (Fin 100) (Math_round (fmul (fdiv l t) (Fin 100))))\<rparr>)
   \<and> (loaded pr = None \<or> total pr = None
       \<or> loaded pr = Some (Fin 0) \<or> total pr = Some (Fin 0)
       \<or> loaded pr = Some NaN \<or> total pr = Some NaN
      \<longrightarrow> onDocumentLoadProgress (Some pr) v = v)
   \<and> onDocumentLoadProgress None v = v
   \<and> ((\<forall>x. loadProgress v = Some x \<longrightarrow> \<not> js_lt (Fin 100) x)
      \<longrightarrow> (\<forall>x. loadProgress (onDocumentLoadProgress progress v) = Some x
            \<longrightarrow> \<not> js_lt (Fin 100) x))
   \<and> onDocumentLoadProgress (Some \<lparr>loaded = Some (Fin 0), total = Some t\<rparr>) v = v"
proof -
  have a: "onDocumentLoadProgress (Some pr) v
          = v\<lparr>loadProgress :=
              Some (Math_min (Fin 100) (Math_round (fmul (fdiv l t) (Fin 100))))\<rparr>"
    if "loaded pr = Some l \<and> total pr = Some t \<and> truthy_number l \<and> truthy_number t"
    using that progress_applies [of pr l t v] by (simp add: pct_def)
  have s: "onDocumentLoadProgress (Some pr) v = v"
    if "loaded pr = None \<or> total pr = None
       \<or> loaded pr = Some (Fin 0) \<or> total pr = Some (Fin 0)
       \<or> loaded pr = Some NaN \<or> total pr = Some NaN"
  proof (rule progress_skips)
    from that show "loaded pr = None \<or> total pr = None
      \<or> (\<exists>l. loaded pr = Some l \<and> \<not> truthy_number l)
      \<or> (\<exists>t. total pr = Some t \<and> \<not> truthy_number t)"
      by auto
  qed
  have b: "onDocumentLoadProgress (Some \<lparr>loaded = Some (Fin 0), total = Some t\<rparr>) v = v"
    by (rule progress_skips) simp
  have c: "\<not> js_lt (Fin 100) x"
    if "\<forall>x. loadProgress v = Some x \<longrightarrow> \<not> js_lt (Fin 100) x"
      and "loadProgress (onDocumentLoadProgress progress v) = Some x" for x
    using that progress_cases [of progress v] pct_le_100 by auto
  from a s b c progress_absent [of v] show ?thesis
    by blast
qed

theorem onDocumentLoadProgress_effect_witness:
  "onDocumentLoadProgress (Some \<lparr>loaded = Some (Fin 23), total = Some (Fin 40)\<rparr>)
      (initial (Some 0) [] 1)
     = (initial (Some 0) [] 1)\<lparr>loadProgress := Some (Fin 57)\<rparr>
   \<and> onDocumentLoadProgress (Some \<lparr>loaded = Some (Fin 0), total = Some (Fin 200)\<rparr>)
      (initial (Some 0) [] 1)
     = initial (Some 0) [] 1
   \<and> onDocumentLoadProgress (Some \<lparr>loaded = None, total = Some (Fin 200)\<rparr>)
      (initial (Some 0) [] 1)
     = initial (Some 0) [] 1"
proof -
  let ?v = "initial (Some 0) [] 1"
  let ?pr = "\<lparr>loaded = Some (Fin 23), total = Some (Fin 40)\<rparr>"
  let ?none = "\<lparr>loaded = None, total = Some (Fin 200)\<rparr>"
  have h: "loaded ?pr = Some (Fin 23) \<and> total ?pr = Some (Fin 40)
      \<and> truthy_number (Fin 23) \<and> truthy_number (Fin 40)"
    by simp
  have "onDocumentLoadProgress (Some ?pr) ?v
      = ?v\<lparr>loadProgress :=
          Some (Math_min (Fin 100) (Math_round (fmul (fdiv (Fin 23) (Fin 40)) (Fin 100))))\<rparr>"
    using onDocumentLoadProgress_effect [of ?pr "Fin 23" "Fin 40" ?v None] h by blast
  then have x: "onDocumentLoadProgress (Some ?pr) ?v = ?v\<lparr>loadProgress := Some (Fin 57)\<rparr>"
    using pct_23_40 by (simp add: pct_def)
  have y: "onDocumentLoadProgress (Some \<lparr>loaded = Some (Fin 0), total = Some (Fin 200)\<rparr>) ?v = ?v"
    using onDocumentLoadProgress_effect [of ?pr "Fin 23" "Fin 200" ?v None] by blast
  have "loaded ?none = None" by simp
  then have z: "onDocumentLoadProgress (Some ?none) ?v = ?v"
    using onDocumentLoadProgress_effect [of ?none "Fin 23" "Fin 40" ?v None] by blast
  show ?thesis
    by (intro conjI) (fact x, fact y, fact z)
qed

section \<open>Reports after the end of a load\<close>

lemma success_progress: "loadProgress (onDocumentLoadSuccess n v) = None"
  by (simp add: onDocumentLoadSuccess_def)

lemma error_progress: "loadProgress (onDocumentLoadError message v) = loadProgress v"
  by (simp add: onDocumentLoadError_def)

text \<open>
  C8 as stated fails: after a success the stored progress is unknown, and a report of
  50 of 100 that arrives afterwards stores 50, which the badge of lines 170-174 shows.
\<close>

theorem late_progress_counterexample:
  "\<not> (\<forall>v n message progress.
        loadProgress (onDocumentLoadProgress progress (onDocumentLoadSuccess n v))
          = loadProgress (onDocumentLoadSuccess n v)
      \<and> loadProgress (onDocumentLoadProgress progress (onDocumentLoadError message v))
          = loadProgress (onDocumentLoadError message v))"
proof
  assume a: "\<forall>v n message progress.
        loadProgress (onDocumentLoadProgress progress (onDocumentLoadSuccess n v))
          = loadProgress (onDocumentLoadSuccess n v)
      \<and> loadProgress (onDocumentLoadProgress progress (onDocumentLoadError message v))
          = loadProgress (onDocumentLoadError message v)"
  let ?v = "initial (Some 0) [] 1"
  let ?pr = "\<lparr>loaded = Some (Fin 50), total = Some (Fin 100)\<rparr>"
  from a have "loadProgress (onDocumentLoadProgress (Some ?pr) (onDocumentLoadSuccess 3 ?v))
      = loadProgress (onDocumentLoadSuccess 3 ?v)"
    by blast
  moreover have "loadProgress (onDocumentLoadSuccess 3 ?v) = None"
    by (rule success_progress)
  moreover have "loadProgress (onDocumentLoadProgress (Some ?pr) (onDocumentLoadSuccess 3 ?v))
      = Some (pct (Fin 50) (Fin 100))"
    using progress_applies [of ?pr "Fin 50" "Fin 100" "onDocumentLoadSuccess 3 ?v"] by simp
  ultimately show False by simp
qed

text \<open>
  C8, amended. The success event resets the stored progress to unknown and the failure
  event leaves it as it was; a progress report received after either is handled as in
  any other state: with \<open>loaded\<close> and \<open>total\<close> both present and truthy it stores
  \<open>Math.min(100, Math.round((loaded / total) * 100))\<close>, computed in doubles, and with
  no report, a field absent or a field zero or \<open>NaN\<close> it changes nothing.
\<close>

theorem late_progress_is_applied:
  "loadProgress (onDocumentLoadSuccess n v) = None
   \<and> loadProgress (onDocumentLoadError message v) = loadProgress v
   \<and> (loaded pr = Some l \<and> total pr = Some t \<and> truthy_number l \<and> truthy_number t
      \<longrightarrow> loadProgress (onDocumentLoadProgress (Some pr) (onDocumentLoadSuccess n v))
            = Some (Math_min (Fin 100) (Math_round (fmul (fdiv l t) (Fin 100))))
        \<and> loadProgress (onDocumentLoadProgress (Some pr) (onDocumentLoadError message v))
            = Some (Math_min (Fin 100) (Math_round (fmul (fdiv l t) (Fin 100)))))
   \<and> (loaded pr = None \<or> total pr = None
       \<or> loaded pr = Some (Fin 0) \<or> total pr = Some (Fin 0)
       \<or> loaded pr = Some NaN \<or> total pr = Some NaN
      \<longrightarrow> onDocumentLoadProgress (Some pr) (onDocumentLoadSuccess n v)
            = onDocumentLoadSuccess n v
        \<and> onDocumentLoadProgress (Some pr) (onDocumentLoadError message v)
            = onDocumentLoadError message v)
   \<and> onDocumentLoadProgress None (onDocumentLoadSuccess n v) = onDocumentLoadSuccess n v
   \<and> onDocumentLoadProgress None (onDocumentLoadError message v)
        = onDocumentLoadError message v"
proof -
  have a: "loadProgress (onDocumentLoadProgress (Some pr) w)
      = Some (Math_min (Fin 100) (Math_round (fmul (fdiv l t) (Fin 100))))"
    if "loaded pr = Some l \<and> total pr = Some t \<and> truthy_number l \<and> truthy_number t" for w
    using that progress_applies [of pr l t w] by (simp add: pct_def)
  have b: "onDocumentLoadProgress (Some pr) w = w"
    if "loaded pr = None \<or> total pr = None
       \<or> loaded pr = Some (Fin 0) \<or> total pr = Some (Fin 0)
       \<or> loaded pr = Some NaN \<or> total pr = Some NaN" for w
  proof (rule progress_skips)
    from that show "loaded pr = None \<or> total pr = None
      \<or> (\<exists>l. loaded pr = Some l \<and> \<not> truthy_number l)
      \<or> (\<exists>t. total pr = Some t \<and> \<not> truthy_number t)"
      by auto
  qed
  from a b show ?thesis
    using success_progress [of n v] error_progress [of message v] progress_absent
    by blast
qed

theorem late_progress_is_applied_witness:
  "loadProgress (onDocumentLoadProgress (Some \<lparr>loaded = Some (Fin 23), total = Some (Fin 40)\<rparr>)
      (onDocumentLoadSuccess 3 (initial (Some 0) [] 1))) = Some (Fin 57)
   \<and> loadProgress (onDocumentLoadProgress (Some \<lparr>loaded = Some (Fin 23), total = Some (Fin 40)\<rparr>)
      (onDocumentLoadError ''Missing PDF'' (initial (Some 0) [] 1))) = Some (Fin 57)
   \<and> loadProgress (onDocumentLoadSuccess 3 (initial (Some 0) [] 1)) = None"
proof -
  let ?v = "initial (Some 0) [] 1"
  let ?pr = "\<lparr>loaded = Some (Fin 23), total = Some (Fin 40)\<rparr>"
  note t = late_progress_is_applied [of 3 ?v "''Missing PDF''" ?pr "Fin 23" "Fin 40"]
  have h: "loaded ?pr = Some (Fin 23) \<and> total ?pr = Some (Fin 40)
      \<and> truthy_number (Fin 23) \<and> truthy_number (Fin 40)"
    by simp
  have r: "Math_min (Fin 100) (Math_round (fmul (fdiv (Fin 23) (Fin 40)) (Fin 100))) = Fin 57"
    using pct_23_40 by (simp add: pct_def)
  from t h have "loadProgress (onDocumentLoadProgress (Some ?pr) (onDocumentLoadSuccess 3 ?v))
        = Some (Math_min (Fin 100) (Math_round (fmul (fdiv (Fin 23) (Fin 40)) (Fin 100))))
      \<and> loadProgress (onDocumentLoadProgress (Some ?pr) (onDocumentLoadError ''Missing PDF'' ?v))
        = Some (Math_min (Fin 100) (Math_round (fmul (fdiv (Fin 23) (Fin 40)) (Fin 100))))"
    by blast
  moreover from t have "loadProgress (onDocumentLoadSuccess 3 ?v) = None"
    by blast
  ultimately show ?thesis unfolding r by blast
qed

section \<open>Reports of an earlier file\<close>

lemma set_file_load_state:
  "numPages (fst (set_file f (v, r))) = numPages v
   \<and> loadProgress (fst (set_file f (v, r))) = loadProgress v
   \<and> error (fst (set_file f (v, r))) = error v"
  by (simp add: set_file_def file_effect_def run_cleanup_def createObjectURL_def
      split: option.splits prod.splits)

text \<open>
  C3 as stated fails: the viewer is mounted with file 1 (URL 0), the file is replaced by
  file 2 (URL 1), and the success of the load of URL 0 arrives: it sets the page count.
\<close>

theorem stale_callback_counterexample:
  "\<not> (\<forall>v cb. stale cb v \<longrightarrow>
         numPages (deliver cb v) = numPages v
       \<and> loadProgress (deliver cb v) = loadProgress v
       \<and> error (deliver cb v) = error v)"
proof
  assume a: "\<forall>v cb. stale cb v \<longrightarrow>
         numPages (deliver cb v) = numPages v
       \<and> loadProgress (deliver cb v) = loadProgress v
       \<and> error (deliver cb v) = error v"
  let ?s = "set_file (Some 2) (mount (Some 1) [] 1 \<lparr>created = [], revoked = []\<rparr>)"
  let ?cb = "\<lparr>origin = 0, event = Loaded 7\<rparr>"
  have u: "fileUrl (fst ?s) = Some 1" and n: "numPages (fst ?s) = None"
    by (simp_all add: set_file_def mount_def initial_def file_effect_def run_cleanup_def
        createObjectURL_def revokeObjectURL_def)
  from u have "stale ?cb (fst ?s)"
    by (simp add: stale_def)
  with a have "numPages (deliver ?cb (fst ?s)) = numPages (fst ?s)"
    by blast
  moreover have "numPages (deliver ?cb (fst ?s)) = Some 7"
    by (simp add: deliver_def onDocumentLoadSuccess_def onPageChange_def)
  ultimately show False using n by simp
qed

text \<open>
  C3, amended. The handlers receive the payload only and compare no identity or
  generation: a success, failure or progress report is applied in the same way whatever
  file it belongs to (a success sets the page count, clears error and progress and
  resets the page to 1; a failure sets the error text; a progress report is handled by
  the progress handler), and activating a new file resets none of page count, progress
  and error.
\<close>

theorem deliver_ignores_origin:
  "deliver \<lparr>origin = u, event = Loaded n\<rparr> v
     = v\<lparr>currentPage := 1, numPages := Some n, loadProgress := None, error := None\<rparr>
   \<and> deliver \<lparr>origin = u, event = Failed message\<rparr> v = v\<lparr>error := Some (errorMessage message)\<rparr>
   \<and> deliver \<lparr>origin = u, event = Reported progress\<rparr> v = onDocumentLoadProgress progress v
   \<and> deliver \<lparr>origin = u, event = e\<rparr> v = deliver \<lparr>origin = u', event = e\<rparr> v
   \<and> numPages (fst (set_file f (v, r))) = numPages v
   \<and> loadProgress (fst (set_file f (v, r))) = loadProgress v
   \<and> error (fst (set_file f (v, r))) = error v"
  using set_file_load_state [of f v r]
  by (simp add: deliver_def onDocumentLoadSuccess_def onDocumentLoadError_def onPageChange_def)

theorem deliver_ignores_origin_witness:
  "fileUrl (fst (set_file (Some 2) (mount (Some 1) [] 1 \<lparr>created = [], revoked = []\<rparr>))) = Some 1
   \<and> numPages (deliver \<lparr>origin = 0, event = Loaded 7\<rparr>
        (fst (set_file (Some 2) (mount (Some 1) [] 1 \<lparr>created = [], revoked = []\<rparr>)))) = Some 7
   \<and> error (deliver \<lparr>origin = 0, event = Failed ''Missing PDF''\<rparr>
        (fst (set_file (Some 2) (mount (Some 1) [] 1 \<lparr>created = [], revoked = []\<rparr>))))
       = Some ''Failed to load PDF file: Missing PDF''"
proof -
  let ?v = "fst (set_file (Some 2) (mount (Some 1) [] 1 \<lparr>created = [], revoked = []\<rparr>))"
  note t = deliver_ignores_origin [of 0 7 ?v "''Missing PDF''" None "Loaded 7" 0 None
      "\<lparr>created = [], revoked = []\<rparr>"]
  have "fileUrl ?v = Some 1"
    by (simp add: set_file_def mount_def initial_def file_effect_def run_cleanup_def
        createObjectURL_def revokeObjectURL_def)
  moreover from t have "numPages (deliver \<lparr>origin = 0, event = Loaded 7\<rparr> ?v) = Some 7"
    by simp
  moreover have "errorMessage ''Missing PDF'' = ''Failed to load PDF file: Missing PDF''"
    by (simp add: errorMessage_def)
  with t have "error (deliver \<lparr>origin = 0, event = Failed ''Missing PDF''\<rparr> ?v)
      = Some ''Failed to load PDF file: Missing PDF''"
    by simp
  ultimately show ?thesis by blast
qed

section \<open>Object URLs\<close>

lemma balancedI:
  assumes "created r = [0..<n]" and "revoked r @ pending v = [0..<n]"
  shows "balanced (v, r)"
proof -
  from assms(1) have "length (created r) = n" by simp
  with assms show ?thesis
    unfolding balanced_def by simp
qed

lemma balancedD:
  assumes "balanced (v, r)"
  shows "\<exists>n. created r = [0..<n] \<and> revoked r @ pending v = [0..<n]"
proof -
  from assms have ab: "created r = [0..<length (created r)] \<and> revoked r @ pending v = created r"
    unfolding balanced_def prod.case .
  from ab have a: "created r = [0..<length (created r)]" by (rule conjunct1)
  from ab have b: "revoked r @ pending v = created r" by (rule conjunct2)
  from b a have "revoked r @ pending v = [0..<length (created r)]" by (rule trans)
  with a show ?thesis by blast
qed

lemma balanced_mount: "balanced (mount f els cur no_urls)"
proof (cases f)
  case None
  then have "mount f els cur no_urls = ((initial f els cur)\<lparr>cleanup := None\<rparr>, no_urls)"
    by (simp add: mount_def file_effect_def initial_def)
  moreover have "balanced ((initial f els cur)\<lparr>cleanup := None\<rparr>, no_urls)"
    by (rule balancedI [of _ 0]) (simp_all add: no_urls_def pending_def)
  ultimately show ?thesis by simp
next
  case (Some a)
  then have "mount f els cur no_urls
      = ((initial f els cur)\<lparr>fileUrl := Some 0, cleanup := Some 0\<rparr>, \<lparr>created = [0], revoked = []\<rparr>)"
    by (simp add: mount_def file_effect_def initial_def createObjectURL_def no_urls_def)
  moreover have "balanced ((initial f els cur)\<lparr>fileUrl := Some 0, cleanup := Some 0\<rparr>,
      \<lparr>created = [0], revoked = []\<rparr>)"
    by (rule balancedI [of _ 1]) (simp_all add: pending_def)
  ultimately show ?thesis by simp
qed

lemma balanced_run_cleanup:
  assumes "balanced s"
  shows "balanced (run_cleanup s) \<and> cleanup (fst (run_cleanup s)) = None"
proof (cases s)
  case (Pair v r)
  with assms have "balanced (v, r)" by simp
  then obtain n where c: "created r = [0..<n]" and p: "revoked r @ pending v = [0..<n]"
    using balancedD by blast
  show ?thesis
  proof (cases "cleanup v")
    case None
    with Pair assms show ?thesis by (simp add: run_cleanup_def)
  next
    case (Some url)
    then have r: "run_cleanup (v, r) = (v\<lparr>cleanup := None\<rparr>, r\<lparr>revoked := revoked r @ [url]\<rparr>)"
      by (simp add: run_cleanup_def revokeObjectURL_def)
    from Some p have q: "revoked r @ [url] = [0..<n]" by (simp add: pending_def)
    have "balanced (v\<lparr>cleanup := None\<rparr>, r\<lparr>revoked := revoked r @ [url]\<rparr>)"
      by (rule balancedI [of _ n]) (simp_all add: c q pending_def)
    with Pair r show ?thesis by simp
  qed
qed

lemma balanced_file_effect:
  assumes "balanced s" and "cleanup (fst s) = None"
  shows "balanced (file_effect s)"
proof (cases s)
  case (Pair v r)
  with assms have "balanced (v, r)" and n: "cleanup v = None" by simp_all
  then obtain n where c: "created r = [0..<n]" and p0: "revoked r @ pending v = [0..<n]"
    using balancedD by blast
  from p0 n have p: "revoked r = [0..<n]" by (simp add: pending_def)
  show ?thesis
  proof (cases "file_prop v")
    case None
    then have "file_effect (v, r) = (v\<lparr>cleanup := None\<rparr>, r)"
      by (simp add: file_effect_def)
    moreover have "balanced (v\<lparr>cleanup := None\<rparr>, r)"
      by (rule balancedI [of _ n]) (simp_all add: c p pending_def)
    ultimately show ?thesis using Pair by simp
  next
    case (Some a)
    from c have l: "length (created r) = n" by simp
    from Some l have "file_effect (v, r)
        = (v\<lparr>fileUrl := Some n, cleanup := Some n\<rparr>, r\<lparr>created := created r @ [n]\<rparr>)"
      by (simp add: file_effect_def createObjectURL_def)
    moreover have "balanced (v\<lparr>fileUrl := Some n, cleanup := Some n\<rparr>,
        r\<lparr>created := created r @ [n]\<rparr>)"
      by (rule balancedI [of _ "Suc n"]) (simp_all add: c p pending_def)
    ultimately show ?thesis using Pair by simp
  qed
qed

lemma balanced_set_file:
  assumes "balanced s"
  shows "balanced (set_file f s)"
proof (cases s)
  case (Pair v r)
  show ?thesis
  proof (cases "f = file_prop v")
    case True
    with Pair assms show ?thesis by (simp add: set_file_def)
  next
    case False
    from Pair assms have "balanced (v, r)" by simp
    then obtain n where c: "created r = [0..<n]" and p: "revoked r @ pending v = [0..<n]"
      using balancedD by blast
    have "balanced (v\<lparr>file_prop := f\<rparr>, r)"
      by (rule balancedI [of _ n]) (simp_all add: c p [symmetric] pending_def)
    then have "balanced (run_cleanup (v\<lparr>file_prop := f\<rparr>, r))
        \<and> cleanup (fst (run_cleanup (v\<lparr>file_prop := f\<rparr>, r))) = None"
      by (rule balanced_run_cleanup)
    then have "balanced (file_effect (run_cleanup (v\<lparr>file_prop := f\<rparr>, r)))"
      using balanced_file_effect by blast
    with Pair False show ?thesis by (simp add: set_file_def)
  qed
qed

lemma balanced_swaps:
  assumes "balanced s"
  shows "balanced (swaps fs s)"
  using assms
proof (induction fs arbitrary: s)
  case Nil
  then show ?case by (simp add: swaps_def)
next
  case (Cons f fs)
  from Cons.prems have "balanced (set_file f s)" by (rule balanced_set_file)
  then have "balanced (swaps fs (set_file f s))" by (rule Cons.IH)
  then show ?case by (simp add: swaps_def)
qed

lemma balanced_live:
  assumes "balanced s"
  shows "live (snd s) = pending (fst s)"
proof (cases s)
  case (Pair v r)
  with assms have "balanced (v, r)" by simp
  then obtain n where c: "created r = [0..<n]" and p: "revoked r @ pending v = [0..<n]"
    using balancedD by blast
  have "distinct (revoked r @ pending v)"
    unfolding p by simp
  then have "filter (\<lambda>url. url \<notin> set (revoked r)) (revoked r @ pending v) = pending v"
    by (cases "cleanup v") (simp_all add: pending_def)
  moreover from c p have "created r = revoked r @ pending v" by simp
  ultimately show ?thesis using Pair by (simp add: live_def)
qed

lemma balanced_unmount:
  assumes "balanced s"
  shows "revoked (snd (unmount s)) = created (snd (unmount s))
    \<and> distinct (created (snd (unmount s)))
    \<and> live (snd (unmount s)) = []"
proof -
  from assms have b: "balanced (unmount s)" and n: "cleanup (fst (unmount s)) = None"
    using balanced_run_cleanup [of s] by (simp_all add: unmount_def)
  obtain v r where u: "unmount s = (v, r)" by (cases "unmount s")
  with b have "balanced (v, r)" by simp
  then obtain k where c: "created r = [0..<k]" and p: "revoked r @ pending v = [0..<k]"
    using balancedD by blast
  from n u have "pending v = []" by (simp add: pending_def)
  with p have e: "revoked r = [0..<k]" by simp
  have "live (snd (unmount s)) = pending (fst (unmount s))"
    using b by (rule balanced_live)
  with n have "live (snd (unmount s)) = []" by (simp add: pending_def)
  with c e u show ?thesis by simp
qed

lemma set_file_revokes_previous:
  assumes "cleanup (fst s) = Some url" and "g \<noteq> file_prop (fst s)"
  shows "revoked (snd (set_file g s)) = revoked (snd s) @ [url]"
  using assms
  by (cases s) (simp add: set_file_def run_cleanup_def file_effect_def createObjectURL_def
      revokeObjectURL_def split: option.splits)

text \<open>
  C9. After any sequence of file changes followed by the removal of the viewer, the URLs
  revoked are exactly the URLs created, in the same order and each once (no URL is
  created twice, so the two counts agree and none is left live); between two steps at
  most one URL is live; and a change to a different file revokes the URL of the
  previous one, which is then no longer live.
\<close>

theorem object_urls_released_once:
  "revoked (snd (unmount (swaps fs (mount f els cur no_urls))))
     = created (snd (unmount (swaps fs (mount f els cur no_urls))))
   \<and> distinct (created (snd (unmount (swaps fs (mount f els cur no_urls)))))
   \<and> length (revoked (snd (unmount (swaps fs (mount f els cur no_urls)))))
     = length (created (snd (unmount (swaps fs (mount f els cur no_urls)))))
   \<and> live (snd (unmount (swaps fs (mount f els cur no_urls)))) = []
   \<and> length (live (snd (swaps fs (mount f els cur no_urls)))) \<le> 1
   \<and> (\<forall>url. cleanup (fst (swaps fs (mount f els cur no_urls))) = Some url
          \<and> g \<noteq> file_prop (fst (swaps fs (mount f els cur no_urls)))
        \<longrightarrow> revoked (snd (set_file g (swaps fs (mount f els cur no_urls))))
             = revoked (snd (swaps fs (mount f els cur no_urls))) @ [url]
          \<and> url \<notin> set (live (snd (set_file g (swaps fs (mount f els cur no_urls))))))"
proof -
  let ?s = "swaps fs (mount f els cur no_urls)"
  have b: "balanced ?s"
    using balanced_mount by (rule balanced_swaps)
  have u: "revoked (snd (unmount ?s)) = created (snd (unmount ?s))
    \<and> distinct (created (snd (unmount ?s))) \<and> live (snd (unmount ?s)) = []"
    using b by (rule balanced_unmount)
  then have u': "length (revoked (snd (unmount ?s))) = length (created (snd (unmount ?s)))"
    by simp
  have l: "length (live (snd ?s)) \<le> 1"
    using balanced_live [OF b] by (simp add: pending_def split: option.splits)
  have r: "\<forall>url. cleanup (fst ?s) = Some url \<and> g \<noteq> file_prop (fst ?s)
      \<longrightarrow> revoked (snd (set_file g ?s)) = revoked (snd ?s) @ [url]
        \<and> url \<notin> set (live (snd (set_file g ?s)))"
  proof (intro allI impI)
    fix url
    assume h: "cleanup (fst ?s) = Some url \<and> g \<noteq> file_prop (fst ?s)"
    then have a: "revoked (snd (set_file g ?s)) = revoked (snd ?s) @ [url]"
      using set_file_revokes_previous [of ?s url g] by simp
    then have "url \<notin> set (live (snd (set_file g ?s)))"
      by (simp add: live_def)
    with a show "revoked (snd (set_file g ?s)) = revoked (snd ?s) @ [url]
        \<and> url \<notin> set (live (snd (set_file g ?s)))"
      by (rule conjI)
  qed
  from u u' l r show ?thesis by (intro conjI) (rule conjunct1, assumption,
      rule conjunct1 [OF conjunct2], assumption, assumption,
      rule conjunct2 [OF conjunct2], assumption, assumption, assumption)
qed

theorem object_urls_released_once_witness:
  "created (snd (unmount (swaps [Some 2, Some 2, None, Some 3] (mount (Some 1) [] 1 no_urls))))
     = [0, 1, 2]
   \<and> revoked (snd (unmount (swaps [Some 2, Some 2, None, Some 3] (mount (Some 1) [] 1 no_urls))))
     = [0, 1, 2]
   \<and> live (snd (swaps [Some 2, Some 2, None, Some 3] (mount (Some 1) [] 1 no_urls))) = [2]
   \<and> live (snd (unmount (swaps [Some 2, Some 2, None, Some 3] (mount (Some 1) [] 1 no_urls)))) = []"
proof -
  let ?s = "swaps [Some 2, Some 2, None, Some 3] (mount (Some 1) [] 1 no_urls)"
  note t = object_urls_released_once [of "[Some 2, Some 2, None, Some 3]" "Some 1" "[]" 1 None]
  have c: "created (snd (unmount ?s)) = [0, 1, 2]"
    by (simp add: swaps_def set_file_def mount_def initial_def file_effect_def run_cleanup_def
        unmount_def createObjectURL_def revokeObjectURL_def no_urls_def)
  from t have "revoked (snd (unmount ?s)) = created (snd (unmount ?s))"
    by (rule conjunct1)
  with c have r: "revoked (snd (unmount ?s)) = [0, 1, 2]" by simp
  have l: "live (snd ?s) = [2]"
    by (simp add: swaps_def set_file_def mount_def initial_def file_effect_def run_cleanup_def
        createObjectURL_def revokeObjectURL_def no_urls_def live_def)
  from t have e: "live (snd (unmount ?s)) = []"
    by blast
  from c r l e show ?thesis by blast
qed

section \<open>Overlays\<close>

lemma overlays_length:
  assumes "js_lt (Fin 0) (pageWidth v)"
  shows "length (overlays v) = length (annotations v)"
  using assms by (simp add: overlays_def)

lemma overlays_nth:
  assumes "js_lt (Fin 0) (pageWidth v)" and "i < length (annotations v)"
  shows "overlays v ! i = overlay (pageWidth v) i (annotations v ! i)"
  using assms by (simp add: overlays_def nth_enumerate_eq)

lemma overlays_no_width:
  assumes "\<not> js_lt (Fin 0) (pageWidth v)"
  shows "overlays v = []"
  using assms by (simp add: overlays_def)

lemma shown_overlays_loaded:
  assumes "fileUrl v = Some url" and "error v = None"
  shows "shown_overlays v = overlays v"
  using assms by (simp add: shown_overlays_def)

lemma overlay_box:
  assumes "bbox el = [a, b, c, d]"
  shows "style_left (overlay w i el) = Some (fdiv (fmul a w) (Fin 1000))
    \<and> style_top (overlay w i el) = Some (fdiv (fmul b w) (Fin 1000))
    \<and> style_width (overlay w i el)
        = fsub (fdiv (fmul c w) (Fin 1000)) (fdiv (fmul a w) (Fin 1000))
    \<and> style_height (overlay w i el)
        = fsub (fdiv (fmul d w) (Fin 1000)) (fdiv (fmul b w) (Fin 1000))"
  using assms
  by (simp add: overlay_def project_def js_at_def js_sub_def to_number_def Let_def)

lemma overlay_border: "border (overlay w i el) = border_class (type el)"
  by (simp add: overlay_def Let_def)

text \<open>
  A viewer as it stands after it was mounted with a file and one element on page 1, its
  container was measured 800 wide, and the load of three pages succeeded.
\<close>

lemma loaded_viewer:
  "onDocumentLoadSuccess 3 (handleResize (Fin 800) (fst (mount (Some 0) [el] 1 no_urls)))
     = \<lparr>file_prop = Some 0, elements = [el], currentPage = 1, numPages = Some 3,
        pageWidth = Fin 800, loadProgress = None, error = None, fileUrl = Some 0,
        renderText = False, cleanup = Some 0\<rparr>"
  by (simp add: onDocumentLoadSuccess_def onPageChange_def handleResize_def mount_def
      initial_def file_effect_def createObjectURL_def no_urls_def)

lemma loaded_viewer_overlays:
  assumes "page el = 1"
  shows "shown_overlays
      (onDocumentLoadSuccess 3 (handleResize (Fin 800) (fst (mount (Some 0) [el] 1 no_urls))))
    = [overlay (Fin 800) 0 el]"
  unfolding loaded_viewer using assms
  by (simp add: shown_overlays_def overlays_def annotations_def forPage_def)

text \<open>
  With integer coordinates in [0,1000] and an integer width below \<open>2^43\<close>, the
  projected smaller coordinate is smaller by more than the rounding can make up for: the
  double difference is negative.
\<close>

lemma inverted_integers_negative:
  assumes "0 \<le> c" and "c < a" and "a \<le> 1000" and "0 < n" and "n < 2 ^ 43"
  shows "js_lt (fsub (fdiv (fmul (Fin (of_int c)) (Fin (of_int n))) (Fin 1000))
                     (fdiv (fmul (Fin (of_int a)) (Fin (of_int n))) (Fin 1000))) (Fin 0)"
proof -
  let ?n = "of_int n :: rat"
  let ?xc = "of_int c * ?n / 1000"
  let ?xa = "of_int a * ?n / 1000"
  from assms have pc: "fdiv (fmul (Fin (of_int c)) (Fin (of_int n))) (Fin 1000) = fl ?xc"
    by (intro project_integers) simp_all
  from assms have pa: "fdiv (fmul (Fin (of_int a)) (Fin (of_int n))) (Fin 1000) = fl ?xa"
    by (intro project_integers) simp_all
  from assms(4) have n1: "1 \<le> ?n" by simp
  from assms(5) have "(of_int n :: rat) < of_int (2 ^ 43)" by (simp only: of_int_less_iff)
  then have n43: "?n < 2 ^ 43" by simp
  from assms(1) have c0: "(0 :: rat) \<le> of_int c" by simp
  from assms(1,2) have "1 \<le> a" by simp
  then have a1: "(1 :: rat) \<le> of_int a" by simp
  from assms(3) have "(of_int a :: rat) \<le> of_int 1000" by (simp only: of_int_le_iff)
  then have a1000: "(of_int a :: rat) \<le> 1000" by simp
  from assms(2) have "c + 1 \<le> a" by simp
  then have "(of_int (c + 1) :: rat) \<le> of_int a" by (simp only: of_int_le_iff)
  then have ca: "(of_int c :: rat) + 1 \<le> of_int a" by simp
  have xa_hi: "?xa \<le> ?n"
  proof -
    have "of_int a * ?n \<le> 1000 * ?n" using a1000 n1 by (intro mult_right_mono) simp_all
    then show ?thesis by simp
  qed
  have xa_lo: "1 / 1000 \<le> ?xa"
  proof -
    have "1 * 1 \<le> of_int a * ?n" using a1 n1 by (intro mult_mono) simp_all
    then show ?thesis by simp
  qed
  have xc_lo: "0 \<le> ?xc" using c0 n1 by simp
  have gap: "?n / 1000 \<le> ?xa - ?xc"
  proof -
    have "(of_int c + 1) * ?n \<le> of_int a * ?n" using ca n1 by (intro mult_right_mono) simp_all
    then show ?thesis by (simp add: field_simps)
  qed
  have xc_cases: "?xc = 0 \<or> 1 / 1000 \<le> ?xc"
  proof (cases "c = 0")
    case True
    then show ?thesis by simp
  next
    case False
    with assms(1) have "1 \<le> c" by simp
    then have "(1 :: rat) \<le> of_int c" by simp
    then have "1 * 1 \<le> of_int c * ?n" using n1 by (intro mult_mono) simp_all
    then show ?thesis by simp
  qed
  from gap xc_lo have xc_hi: "?xc \<le> ?n" using xa_hi by linarith
  have "?xc < 2 ^ 53" using xc_hi n43 by simp
  with xc_lo xc_cases obtain rc where rc: "fl ?xc = Fin rc" and ec: "\<bar>rc - ?xc\<bar> \<le> ?xc / 2 ^ 53"
    using fl_nonneg_close [of ?xc] by blast
  have "?xa < 2 ^ 53" using xa_hi n43 by simp
  with xa_lo obtain ra where ra: "fl ?xa = Fin ra" and ea: "\<bar>ra - ?xa\<bar> \<le> ?xa / 2 ^ 53"
    using fl_nonneg_close [of ?xa] by fastforce
  let ?D = "rc - ra"
  have small: "(?xa + ?xc) / 2 ^ 53 \<le> ?n / 2 ^ 52"
    using xa_hi xc_hi by simp
  have "?n / 2 ^ 52 \<le> ?n / 2000"
    using n1 by (intro divide_left_mono) simp_all
  with small have small2: "(?xa + ?xc) / 2 ^ 53 \<le> ?n / 2000" by linarith
  have split: "(?xa + ?xc) / 2 ^ 53 = ?xa / 2 ^ 53 + ?xc / 2 ^ 53"
    by (simp add: add_divide_distrib)
  from ec ea gap small2 split have D_neg: "?D \<le> - (?n / 2000)" by linarith
  with n1 have D_lo: "1 / 2000 \<le> \<bar>?D\<bar>" by linarith
  have "?xa / 2 ^ 53 \<le> ?xa" using xa_lo by (simp add: field_simps)
  with ea have "ra \<le> 2 * ?xa" by linarith
  moreover from ec xc_lo have "0 \<le> rc"
  proof -
    have "?xc / 2 ^ 53 \<le> ?xc" using xc_lo by (simp add: field_simps)
    with ec show ?thesis by linarith
  qed
  ultimately have "\<bar>?D\<bar> \<le> 2 * ?n" using D_neg xa_hi n1 by linarith
  with n43 have D_hi: "\<bar>?D\<bar> < 2 ^ 44" by simp
  have "(2 :: rat) powi (- 1022) \<le> 2 powi (- 11)"
    by (intro power_int_increasing) simp_all
  also have "\<dots> \<le> 1 / 2000" by (simp add: power_int_def power_divide)
  finally have "2 powi (- 1022) \<le> \<bar>?D\<bar>" using D_lo by simp
  moreover have "(2 :: rat) ^ 44 \<le> 2 powi 1023" by (simp add: power_int_def)
  with D_hi have "\<bar>?D\<bar> < 2 powi 1023" by simp
  ultimately obtain rd where rd: "fl ?D = Fin rd" and ed: "\<bar>rd - ?D\<bar> \<le> \<bar>?D\<bar> / 2 ^ 53"
    using fl_normal by blast
  have half: "\<bar>?D\<bar> / 2 ^ 53 \<le> \<bar>?D\<bar> / 2"
    by (intro divide_left_mono) simp_all
  from D_neg n1 have dn: "?D < 0" by linarith
  have "rd - ?D \<le> \<bar>rd - ?D\<bar>" by simp
  also note ed
  also note half
  finally have "rd - ?D \<le> \<bar>?D\<bar> / 2" .
  moreover from dn have "\<bar>?D\<bar> = - ?D" by simp
  ultimately have "rd - ?D \<le> - ?D / 2" by simp
  with dn have "rd < 0" by (simp add: field_simps)
  then have "js_lt (Fin rd) (Fin 0)" by simp
  then show ?thesis unfolding pc pa rc ra by (simp add: rd)
qed

lemma inverted_overlay_800:
  "overlay (Fin 800) 0 \<lparr>type = t, bbox = [Fin 900, Fin 100, Fin 100, Fin 200], page = p\<rparr>
     = \<lparr>key = 0, border = border_class t, style_left = Some (Fin 720),
        style_top = Some (Fin 80), style_width = Fin (- 640), style_height = Fin 80,
        title = ''Type: '' @ t\<rparr>"
  by (simp add: overlay_def project_def js_at_def js_sub_def to_number_def Let_def
      fl_small_integers)

text \<open>
  C7 as stated fails: in the viewer after a successful load, measured 800 wide, the box
  [900,100,100,200] on the current page is given an overlay of width -640.
\<close>

theorem inverted_box_counterexample:
  "\<not> (\<forall>v. \<forall>ov \<in> set (shown_overlays v).
         \<not> js_lt (style_width ov) (Fin 0) \<and> \<not> js_lt (style_height ov) (Fin 0))"
proof
  assume a: "\<forall>v. \<forall>ov \<in> set (shown_overlays v).
         \<not> js_lt (style_width ov) (Fin 0) \<and> \<not> js_lt (style_height ov) (Fin 0)"
  let ?el = "\<lparr>type = ''title'', bbox = [Fin 900, Fin 100, Fin 100, Fin 200], page = 1\<rparr>"
  let ?v = "onDocumentLoadSuccess 3 (handleResize (Fin 800) (fst (mount (Some 0) [?el] 1 no_urls)))"
  have "shown_overlays ?v = [overlay (Fin 800) 0 ?el]"
    by (rule loaded_viewer_overlays) simp
  then have o: "overlay (Fin 800) 0 ?el \<in> set (shown_overlays ?v)" by simp
  have w: "style_width (overlay (Fin 800) 0 ?el) = Fin (- 640)"
    by (simp add: inverted_overlay_800)
  from a o have "\<not> js_lt (style_width (overlay (Fin 800) 0 ?el)) (Fin 0)" by blast
  with w show False by simp
qed

text \<open>
  C7, amended. In a viewer that holds a URL and no error, with a positive measured width
  \<open>w\<close>, every annotation of the current page whose box has four components is given an
  overlay, inverted or not: the box is neither rejected nor clamped. The overlay stands
  at the doubles \<open>(xMin * w) / 1000\<close> and \<open>(yMin * w) / 1000\<close>; its width is the
  double difference \<open>(xMax * w) / 1000 - (xMin * w) / 1000\<close> and its height
  \<open>(yMax * w) / 1000 - (yMin * w) / 1000\<close>, whatever their sign. Where the
  coordinates are integers in [0,1000] and the width is an integer below \<open>2^43\<close>, the
  width of the overlay is negative when \<open>xMin > xMax\<close> and its height is negative when
  \<open>yMin > yMax\<close>.
\<close>

theorem inverted_box_is_projected:
  assumes "fileUrl v = Some url" and "error v = None"
    and "js_lt (Fin 0) (pageWidth v)" and "i < length (annotations v)"
    and "bbox (annotations v ! i) = [a, b, c, d]"
  shows "length (shown_overlays v) = length (annotations v)
    \<and> style_left (shown_overlays v ! i) = Some (fdiv (fmul a (pageWidth v)) (Fin 1000))
    \<and> style_top (shown_overlays v ! i) = Some (fdiv (fmul b (pageWidth v)) (Fin 1000))
    \<and> style_width (shown_overlays v ! i)
        = fsub (fdiv (fmul c (pageWidth v)) (Fin 1000)) (fdiv (fmul a (pageWidth v)) (Fin 1000))
    \<and> style_height (shown_overlays v ! i)
        = fsub (fdiv (fmul d (pageWidth v)) (Fin 1000)) (fdiv (fmul b (pageWidth v)) (Fin 1000))
    \<and> (\<forall>x0 x1 n. a = Fin (of_int x0) \<and> c = Fin (of_int x1) \<and> pageWidth v = Fin (of_int n)
          \<and> 0 \<le> x1 \<and> x1 < x0 \<and> x0 \<le> 1000 \<and> n < 2 ^ 43
        \<longrightarrow> js_lt (style_width (shown_overlays v ! i)) (Fin 0))
    \<and> (\<forall>y0 y1 n. b = Fin (of_int y0) \<and> d = Fin (of_int y1) \<and> pageWidth v = Fin (of_int n)
          \<and> 0 \<le> y1 \<and> y1 < y0 \<and> y0 \<le> 1000 \<and> n < 2 ^ 43
        \<longrightarrow> js_lt (style_height (shown_overlays v ! i)) (Fin 0))"
proof -
  have s: "shown_overlays v = overlays v"
    using assms(1,2) by (rule shown_overlays_loaded)
  have n: "overlays v ! i = overlay (pageWidth v) i (annotations v ! i)"
    using assms(3,4) by (rule overlays_nth)
  have l: "length (shown_overlays v) = length (annotations v)"
    unfolding s using assms(3) by (rule overlays_length)
  note box = overlay_box [OF assms(5), of "pageWidth v" i]
  have neg: "js_lt (fsub (fdiv (fmul q (pageWidth v)) (Fin 1000))
        (fdiv (fmul p (pageWidth v)) (Fin 1000))) (Fin 0)"
    if "p = Fin (of_int z0) \<and> q = Fin (of_int z1) \<and> pageWidth v = Fin (of_int k)
          \<and> 0 \<le> z1 \<and> z1 < z0 \<and> z0 \<le> 1000 \<and> k < 2 ^ 43" for p q z0 z1 k
  proof -
    from that assms(3) have "0 < k" by simp
    with that show ?thesis
      using inverted_integers_negative [of z1 z0 k] by simp
  qed
  have wneg: "\<forall>x0 x1 n. a = Fin (of_int x0) \<and> c = Fin (of_int x1) \<and> pageWidth v = Fin (of_int n)
          \<and> 0 \<le> x1 \<and> x1 < x0 \<and> x0 \<le> 1000 \<and> n < 2 ^ 43
        \<longrightarrow> js_lt (style_width (shown_overlays v ! i)) (Fin 0)"
    unfolding s n using box neg [of a _ c] by metis
  have hneg: "\<forall>y0 y1 n. b = Fin (of_int y0) \<and> d = Fin (of_int y1) \<and> pageWidth v = Fin (of_int n)
          \<and> 0 \<le> y1 \<and> y1 < y0 \<and> y0 \<le> 1000 \<and> n < 2 ^ 43
        \<longrightarrow> js_lt (style_height (shown_overlays v ! i)) (Fin 0)"
    unfolding s n using box neg [of b _ d] by metis
  from l box wneg hneg show ?thesis
    unfolding s n by blast
qed

theorem inverted_box_is_projected_witness:
  "length (shown_overlays (onDocumentLoadSuccess 3 (handleResize (Fin 800) (fst (mount (Some 0)
      [\<lparr>type = ''title'', bbox = [Fin 900, Fin 100, Fin 100, Fin 200], page = 1\<rparr>] 1 no_urls))))) = 1
   \<and> style_left (shown_overlays (onDocumentLoadSuccess 3 (handleResize (Fin 800) (fst (mount (Some 0)
      [\<lparr>type = ''title'', bbox = [Fin 900, Fin 100, Fin 100, Fin 200], page = 1\<rparr>] 1 no_urls)))) ! 0)
       = Some (Fin 720)
   \<and> style_width (shown_overlays (onDocumentLoadSuccess 3 (handleResize (Fin 800) (fst (mount (Some 0)
      [\<lparr>type = ''title'', bbox = [Fin 900, Fin 100, Fin 100, Fin 200], page = 1\<rparr>] 1 no_urls)))) ! 0)
       = Fin (- 640)
   \<and> style_height (shown_overlays (onDocumentLoadSuccess 3 (handleResize (Fin 800) (fst (mount (Some 0)
      [\<lparr>type = ''title'', bbox = [Fin 900, Fin 100, Fin 100, Fin 200], page = 1\<rparr>] 1 no_urls)))) ! 0)
       = Fin 80"
proof -
  let ?el = "\<lparr>type = ''title'', bbox = [Fin 900, Fin 100, Fin 100, Fin 200], page = 1\<rparr>"
  let ?v = "onDocumentLoadSuccess 3 (handleResize (Fin 800) (fst (mount (Some 0) [?el] 1 no_urls)))"
  have u: "fileUrl ?v = Some 0" and e: "error ?v = None" and w: "pageWidth ?v = Fin 800"
    unfolding loaded_viewer by simp_all
  have an: "annotations ?v = [?el]"
    unfolding loaded_viewer by (simp add: annotations_def forPage_def)
  have p: "js_lt (Fin 0) (pageWidth ?v)" unfolding w by simp
  have i: "0 < length (annotations ?v)" unfolding an by simp
  have b: "bbox (annotations ?v ! 0) = [Fin 900, Fin 100, Fin 100, Fin 200]"
    unfolding an by simp
  note t = inverted_box_is_projected [OF u e p i b]
  from t have "length (shown_overlays ?v) = length (annotations ?v)" by blast
  then have c1: "length (shown_overlays ?v) = 1" unfolding an by simp
  from t have "style_left (shown_overlays ?v ! 0)
      = Some (fdiv (fmul (Fin 900) (pageWidth ?v)) (Fin 1000))" by blast
  then have c2: "style_left (shown_overlays ?v ! 0) = Some (Fin 720)"
    unfolding w by (simp add: fl_small_integers)
  from t have "style_width (shown_overlays ?v ! 0)
      = fsub (fdiv (fmul (Fin 100) (pageWidth ?v)) (Fin 1000))
          (fdiv (fmul (Fin 900) (pageWidth ?v)) (Fin 1000))" by blast
  then have c3: "style_width (shown_overlays ?v ! 0) = Fin (- 640)"
    unfolding w by (simp add: fl_small_integers)
  from t have "style_height (shown_overlays ?v ! 0)
      = fsub (fdiv (fmul (Fin 200) (pageWidth ?v)) (Fin 1000))
          (fdiv (fmul (Fin 100) (pageWidth ?v)) (Fin 1000))" by blast
  then have c4: "style_height (shown_overlays ?v ! 0) = Fin 80"
    unfolding w by (simp add: fl_small_integers)
  show ?thesis
    by (intro conjI) (fact c1, fact c2, fact c3, fact c4)
qed

section \<open>Border of an unlisted type\<close>

lemma border_class_fallback:
  assumes "map_of COLOR_MAP t = None" and "t \<notin> set object_prototype_keys"
  shows "border_class t = JsString ''border-gray-500''"
  using assms by (simp add: border_class_def COLOR_MAP_get_def)

lemma border_class_inherited:
  assumes "t \<in> set object_prototype_keys"
  shows "border_class t = JsInherited t"
proof -
  from assms have "map_of COLOR_MAP t = None"
    by (auto simp add: COLOR_MAP_def object_prototype_keys_def)
  with assms show ?thesis
    by (simp add: border_class_def COLOR_MAP_get_def)
qed

text \<open>
  C10. The type \<open>constructor\<close> is outside the enumerated categories, and its overlay
  is produced, but not with the gray border: the read \<open>COLOR_MAP['constructor']\<close>
  finds the member inherited from \<open>Object.prototype\<close>, which is truthy, so the
  fallback of line 152 is not taken. A type such as \<open>caption\<close>, which is no member
  of \<open>Object.prototype\<close>, gets the gray border.
\<close>

theorem inherited_key_defeats_fallback:
  "map_of COLOR_MAP ''constructor'' = None
   \<and> map border (shown_overlays (onDocumentLoadSuccess 3 (handleResize (Fin 800) (fst (mount (Some 0)
        [\<lparr>type = ''constructor'', bbox = [Fin 0, Fin 0, Fin 10, Fin 10], page = 1\<rparr>] 1 no_urls)))))
       = [JsInherited ''constructor'']
   \<and> border_class ''constructor'' \<noteq> JsString ''border-gray-500''
   \<and> map border (shown_overlays (onDocumentLoadSuccess 3 (handleResize (Fin 800) (fst (mount (Some 0)
        [\<lparr>type = ''caption'', bbox = [Fin 0, Fin 0, Fin 10, Fin 10], page = 1\<rparr>] 1 no_urls)))))
       = [JsString ''border-gray-500'']"
proof -
  let ?el = "\<lparr>type = ''constructor'', bbox = [Fin 0, Fin 0, Fin 10, Fin 10], page = 1\<rparr>"
  let ?cap = "\<lparr>type = ''caption'', bbox = [Fin 0, Fin 0, Fin 10, Fin 10], page = 1\<rparr>"
  have k: "map_of COLOR_MAP ''constructor'' = None"
    by (simp add: COLOR_MAP_def)
  have c: "border_class ''constructor'' = JsInherited ''constructor''"
    by (rule border_class_inherited) (simp add: object_prototype_keys_def)
  have g: "border_class ''caption'' = JsString ''border-gray-500''"
    by (rule border_class_fallback) (simp_all add: COLOR_MAP_def object_prototype_keys_def)
  have "shown_overlays (onDocumentLoadSuccess 3 (handleResize (Fin 800)
      (fst (mount (Some 0) [?el] 1 no_urls)))) = [overlay (Fin 800) 0 ?el]"
    by (rule loaded_viewer_overlays) simp
  then have m: "map border (shown_overlays (onDocumentLoadSuccess 3 (handleResize (Fin 800)
      (fst (mount (Some 0) [?el] 1 no_urls))))) = [JsInherited ''constructor'']"
    by (simp add: overlay_border c)
  have "shown_overlays (onDocumentLoadSuccess 3 (handleResize (Fin 800)
      (fst (mount (Some 0) [?cap] 1 no_urls)))) = [overlay (Fin 800) 0 ?cap]"
    by (rule loaded_viewer_overlays) simp
  then have n: "map border (shown_overlays (onDocumentLoadSuccess 3 (handleResize (Fin 800)
      (fst (mount (Some 0) [?cap] 1 no_urls))))) = [JsString ''border-gray-500'']"
    by (simp add: overlay_border g)
  from k m c n show ?thesis by simp
qed

section \<open>Further properties of the overlays and of the load\<close>

text \<open>
  A type that is neither a key of \<open>COLOR_MAP\<close> nor the name of a member of
  \<open>Object.prototype\<close> gets the gray border, and its overlay is the projected one at the
  position of its annotation.
\<close>

theorem unlisted_type_gets_gray_border:
  assumes "fileUrl v = Some url" and "error v = None"
    and "js_lt (Fin 0) (pageWidth v)" and "i < length (annotations v)"
    and "map_of COLOR_MAP (type (annotations v ! i)) = None"
    and "type (annotations v ! i) \<notin> set object_prototype_keys"
  shows "length (shown_overlays v) = length (annotations v)
    \<and> shown_overlays v ! i = overlay (pageWidth v) i (annotations v ! i)
    \<and> border (shown_overlays v ! i) = JsString ''border-gray-500''"
proof -
  have s: "shown_overlays v = overlays v"
    using assms(1,2) by (rule shown_overlays_loaded)
  have l: "length (overlays v) = length (annotations v)"
    using assms(3) by (rule overlays_length)
  have n: "overlays v ! i = overlay (pageWidth v) i (annotations v ! i)"
    using assms(3,4) by (rule overlays_nth)
  have "border (overlay (pageWidth v) i (annotations v ! i))
      = border_class (type (annotations v ! i))"
    by (rule overlay_border)
  also have "\<dots> = JsString ''border-gray-500''"
    using assms(5,6) by (rule border_class_fallback)
  finally show ?thesis using s l n by simp
qed

theorem unlisted_type_gets_gray_border_witness:
  "border (shown_overlays (onDocumentLoadSuccess 3 (handleResize (Fin 800) (fst (mount (Some 0)
      [\<lparr>type = ''footnote'', bbox = [Fin 0, Fin 0, Fin 10, Fin 10], page = 1\<rparr>] 1 no_urls)))) ! 0)
     = JsString ''border-gray-500''"
proof -
  let ?el = "\<lparr>type = ''footnote'', bbox = [Fin 0, Fin 0, Fin 10, Fin 10], page = 1\<rparr>"
  let ?v = "onDocumentLoadSuccess 3 (handleResize (Fin 800) (fst (mount (Some 0) [?el] 1 no_urls)))"
  have u: "fileUrl ?v = Some 0" and e: "error ?v = None" and w: "js_lt (Fin 0) (pageWidth ?v)"
    unfolding loaded_viewer by simp_all
  have an: "annotations ?v = [?el]"
    unfolding loaded_viewer by (simp add: annotations_def forPage_def)
  have k: "map_of COLOR_MAP (type (annotations ?v ! 0)) = None"
    unfolding an by (simp add: COLOR_MAP_def)
  have m: "type (annotations ?v ! 0) \<notin> set object_prototype_keys"
    unfolding an by (simp add: object_prototype_keys_def)
  have i: "0 < length (annotations ?v)"
    unfolding an by simp
  from unlisted_type_gets_gray_border [OF u e w i k m] show ?thesis
    by (rule conjunct2 [THEN conjunct2])
qed

text \<open>
  No overlay is shown while the measured width is not positive, while there is no URL,
  or while the error text is set.
\<close>

theorem overlays_suppressed:
  "(\<not> js_lt (Fin 0) (pageWidth v) \<longrightarrow> shown_overlays v = [])
   \<and> (fileUrl v = None \<longrightarrow> shown_overlays v = [])
   \<and> (error (onDocumentLoadError message v) \<noteq> None
      \<and> shown_overlays (onDocumentLoadError message v) = [])"
proof -
  have a: "\<not> js_lt (Fin 0) (pageWidth v) \<longrightarrow> shown_overlays v = []"
    by (simp add: shown_overlays_def overlays_no_width split: option.splits)
  have b: "fileUrl v = None \<longrightarrow> shown_overlays v = []"
    by (simp add: shown_overlays_def)
  have "errorMessage message \<noteq> []"
    by (simp add: errorMessage_def worker_text_def corrupt_text_def)
  then have c: "error (onDocumentLoadError message v) \<noteq> None
      \<and> shown_overlays (onDocumentLoadError message v) = []"
    by (simp add: shown_overlays_def onDocumentLoadError_def split: option.splits)
  from a b c show ?thesis by blast
qed

theorem overlays_suppressed_witness:
  "shown_overlays (fst (mount (Some 0)
      [\<lparr>type = ''title'', bbox = [Fin 100, Fin 100, Fin 900, Fin 200], page = 1\<rparr>] 1 no_urls)) = []
   \<and> shown_overlays (initial (Some 0)
      [\<lparr>type = ''title'', bbox = [Fin 100, Fin 100, Fin 900, Fin 200], page = 1\<rparr>] 1) = []"
proof -
  let ?el = "\<lparr>type = ''title'', bbox = [Fin 100, Fin 100, Fin 900, Fin 200], page = 1\<rparr>"
  have "\<not> js_lt (Fin 0) (pageWidth (fst (mount (Some 0) [?el] 1 no_urls)))"
    by (simp add: mount_def initial_def file_effect_def createObjectURL_def no_urls_def)
  then have "shown_overlays (fst (mount (Some 0) [?el] 1 no_urls)) = []"
    using overlays_suppressed [of "fst (mount (Some 0) [?el] 1 no_urls)" "''x''"] by blast
  moreover have "fileUrl (initial (Some 0) [?el] 1) = None"
    by (simp add: initial_def)
  then have "shown_overlays (initial (Some 0) [?el] 1) = []"
    using overlays_suppressed [of "initial (Some 0) [?el] 1" "''x''"] by blast
  ultimately show ?thesis by blast
qed

end
